theory Spec2Isabelle
  imports Main "HOL-Library.Word"
begin

unbundle bit_operations_syntax

section \<open>Errors\<close>

text \<open>
  Every \<^verbatim>\<open>LOG_AND_ABORT\<close> of the source is a branch returning \<open>Inl (Abort r)\<close>, with
  one reason per diagnostic. \<open>Fault\<close> is a memory access outside the mapped pages of a
  bitmap (the mapping is bracketed by \<^verbatim>\<open>PROT_NONE\<close> guard pages), and
  \<open>Undefined\<close> a shift by the full width of the word, which C leaves undefined.
\<close>

datatype abort_reason =
    CacheContainsBitSlot
  | OutsideUserPages
  | AllocatedChunk
  | CanaryCorrupted
  | NotAligned
  | NotChunkMultiple
  | BitmapLocation
  | DoubleFree
  | DoubleFreeBig
  | BigCanaryCorrupted
  | BigListCorrupted
  | BigTooLarge
  | InvalidBigFree
  | CallocOverflow
  | ZeroSizedChunk
  | PrivateZoneTooSmall
  | PrivateZoneBigSize
  | AbortOnNull
  | NewZoneFailed
  | NoFreeBitSlots
  | TooManyZones
  | LookupTableCorrupted
  | LookupTableSizes
  | LookupTablePrivate
  | NoZoneFound
  | InvalidSize
  | MmapFailed
  | GuardPageFailed
  | RootFailed
  | RootNullWithZone

datatype error = Abort abort_reason | Fault | Undefined

section \<open>Build configuration and constants\<close>

text \<open>
  The build flags of the source (\<^verbatim>\<open>#if\<close>) and the constants whose definitions are in
  \<^verbatim>\<open>iso_alloc_internal.h\<close>, which is not among the source files, are parameters of
  the model.
\<close>

record config =
  SMALL_SZ_MAX :: "64 word"
  BIG_SZ_MAX :: "64 word"
  CANARY_VALIDATE_MASK :: "64 word"
  WASTED_SZ_MULTIPLIER_SHIFT :: nat
  BIG_ZONE_USER_PAGE_COUNT_SHIFT :: nat
  BIG_ZONE_META_DATA_PAGE_COUNT :: "64 word"
  BIG_ZONE_META_SZ :: "64 word"
  ALIGN_SZ_DOWN :: "64 word \<Rightarrow> 64 word"
  ALIGN_SZ_UP :: "64 word \<Rightarrow> 64 word"
  ADDR_TO_CHUNK_TABLE :: "64 word \<Rightarrow> nat"
  g_page_size :: "64 word"
  NO_ZERO_ALLOCATIONS :: bool
  ABORT_ON_NULL :: bool
  VERIFY_BIT_SLOT_CACHE :: bool
  SHUFFLE_BIT_SLOT_CACHE :: bool
  ENABLE_ASAN :: bool
  DISABLE_CANARY :: bool
  SANITIZE_CHUNKS :: bool
  NEVER_REUSE_ZONES :: bool
  SMALL_MEM_STARTUP :: bool

text \<open>
  \<open>BIG_ZONE_META_SZ\<close> is \<^verbatim>\<open>sizeof(iso_alloc_big_zone_t)\<close>, \<open>g_page_size\<close> the page size
  that \<^verbatim>\<open>sysconf\<close> reports, \<open>NEVER_REUSE_ZONES\<close> stands for
  \<^verbatim>\<open>NEVER_REUSE_ZONES || FUZZ_MODE\<close>. The features that the design leaves to external
  collaborators (\<^verbatim>\<open>ALLOC_SANITY\<close>, \<^verbatim>\<open>HEAP_PROFILER\<close>, \<^verbatim>\<open>MEMORY_TAGGING\<close>,
  \<^verbatim>\<open>UAF_PTR_PAGE\<close>, \<^verbatim>\<open>CPU_PIN\<close>, the verification of all zones under
  \<^verbatim>\<open>FUZZ_MODE\<close>) are compiled out. The two conditions under which the source compiles
  its canary and sanitising code:
\<close>

definition CANARIES :: "config \<Rightarrow> bool" where
  "CANARIES cfg = (\<not> ENABLE_ASAN cfg \<and> \<not> DISABLE_CANARY cfg)"

definition SANITIZE :: "config \<Rightarrow> bool" where
  "SANITIZE cfg = (\<not> ENABLE_ASAN cfg \<and> SANITIZE_CHUNKS cfg)"

definition BIT_SLOT_CACHE_SZ :: nat where
  "BIT_SLOT_CACHE_SZ = 255"

definition ZONE_ALLOC_RETIRE :: "64 word" where
  "ZONE_ALLOC_RETIRE = 32"

definition CANARY_COUNT_DIV :: "64 word" where
  "CANARY_COUNT_DIV = 100"

definition ZONE_CACHE_SZ :: nat where
  "ZONE_CACHE_SZ = 8"

definition CHUNK_QUARANTINE_SZ :: nat where
  "CHUNK_QUARANTINE_SZ = 64"

definition MAX_ZONES :: nat where
  "MAX_ZONES = 8192"

definition ZONE_128 :: "64 word" where
  "ZONE_128 = 128"

definition ZONE_1024 :: "64 word" where
  "ZONE_1024 = 1024"

definition MAX_DEFAULT_ZONE_SZ :: "64 word" where
  "MAX_DEFAULT_ZONE_SZ = 8192"

definition ZONE_512 :: "64 word" where
  "ZONE_512 = 512"

definition SMALLEST_CHUNK_SZ :: "config \<Rightarrow> 64 word" where
  "SMALLEST_CHUNK_SZ cfg = (if SMALL_MEM_STARTUP cfg then 64 else 16)"

definition default_zones :: "config \<Rightarrow> 64 word list" where
  "default_zones cfg =
     (if SMALL_MEM_STARTUP cfg then [64, 256, 512, 1024]
      else [16, 32, 64, 128, 256, 512, 1024, 2048, 4096, 8192])"

definition DEFAULT_ZONE_COUNT :: "config \<Rightarrow> nat" where
  "DEFAULT_ZONE_COUNT cfg = length (default_zones cfg)"

text \<open>
  Modelled from the spec: the constants of the missing header that the spec fixes.
  \<open>ZONE_USER_SIZE\<close> is the "fixed per-zone user region (default 4 MiB)"; a bitmap word
  has 64 bits and holds 32 chunk states of 2 bits; \<open>BAD_BIT_SLOT\<close> is the value that
  \<^verbatim>\<open>memset(cache, BAD_BIT_SLOT, ...)\<close> leaves in every 64-bit entry, all bits set;
  \<open>ALIGNMENT\<close> is the 8-byte alignment of every chunk; \<open>ALLOCATED_BITSLOTS\<close> is "the
  bit pattern for a word full of in-use chunks".
\<close>

definition ZONE_USER_SIZE :: "64 word" where
  "ZONE_USER_SIZE = 4194304"

definition BITS_PER_QWORD :: nat where
  "BITS_PER_QWORD = 64"

definition BITS_PER_QWORD_SHIFT :: nat where
  "BITS_PER_QWORD_SHIFT = 6"

definition BITS_PER_CHUNK :: nat where
  "BITS_PER_CHUNK = 2"

definition BITS_PER_CHUNK_SHIFT :: nat where
  "BITS_PER_CHUNK_SHIFT = 1"

definition BITS_PER_BYTE_SHIFT :: nat where
  "BITS_PER_BYTE_SHIFT = 3"

definition BAD_BIT_SLOT :: "64 word" where
  "BAD_BIT_SLOT = - 1"

definition ALIGNMENT :: "64 word" where
  "ALIGNMENT = 8"

definition ALLOCATED_BITSLOTS :: "64 word" where
  "ALLOCATED_BITSLOTS = 0x5555555555555555"

section \<open>Bit utilities\<close>

text \<open>
  Modelled from the spec: \<^verbatim>\<open>GET_BIT\<close>, \<^verbatim>\<open>SET_BIT\<close>, \<^verbatim>\<open>UNSET_BIT\<close> and
  \<^verbatim>\<open>WHICH_BIT\<close> of the missing header, the "bit get/set/unset on 64-bit words" and
  the "bit offset within word" of a bit-slot \<open>(word_index << 6) + bit_offset\<close>.
\<close>

definition GET_BIT :: "64 word \<Rightarrow> nat \<Rightarrow> 64 word" where
  "GET_BIT n k = (drop_bit k n) AND 1"

definition SET_BIT :: "64 word \<Rightarrow> nat \<Rightarrow> 64 word" where
  "SET_BIT n k = n OR (push_bit k 1)"

definition UNSET_BIT :: "64 word \<Rightarrow> nat \<Rightarrow> 64 word" where
  "UNSET_BIT n k = n AND (NOT (push_bit k 1))"

definition WHICH_BIT :: "64 word \<Rightarrow> nat" where
  "WHICH_BIT bit_slot = unat (bit_slot AND 63)"

definition IS_ALIGNED :: "64 word \<Rightarrow> 64 word" where
  "IS_ALIGNED p = p AND (ALIGNMENT - 1)"

section \<open>Random numbers\<close>

text \<open>
  \<^verbatim>\<open>rand_uint64\<close> is an external primitive. The generator is the stream of the
  values it will return; a call takes the first and leaves the rest.
\<close>

type_synonym rng = "nat \<Rightarrow> 64 word"

definition rand_uint64 :: "rng \<Rightarrow> 64 word \<times> rng" where
  "rand_uint64 g = (g 0, \<lambda>n. g (Suc n))"

section \<open>Zones\<close>

text \<open>
  \<^verbatim>\<open>iso_alloc_zone_t\<close>. The pages of the bitmap are kept in the record as the list
  of their 64-bit words (\<open>bitmap\<close>, as long as the pages mapped for it), beside the
  pointer to them; the free-slot cache is the array of its \<open>BIT_SLOT_CACHE_SZ\<close>
  entries, indexed from 0. Bit-slots are signed 64-bit values (\<open>bit_slot_t\<close>), kept
  as \<open>64 word\<close> and read with \<open>sint\<close> where the sign matters. A zone pointer
  \<^verbatim>\<open>&_root->zones[i]\<close> is the index \<open>i\<close>. The counters \<open>af_count\<close> and
  \<open>alloc_count\<close>, whose type is declared in the header, are unsigned 64-bit words.
\<close>

record zone =
  user_pages_start :: "64 word"
  bitmap_start :: "64 word"
  bitmap :: "64 word list"
  next_free_bit_slot :: "64 word"
  free_bit_slot_cache :: "nat \<Rightarrow> 64 word"
  canary_secret :: "64 word"
  pointer_mask :: "64 word"
  chunk_size :: "64 word"
  bitmap_size :: "64 word"
  af_count :: "64 word"
  alloc_count :: "64 word"
  index :: nat
  next_sz_index :: nat
  free_bit_slot_cache_index :: "8 word"
  free_bit_slot_cache_usable :: "8 word"
  internal :: bool
  is_full :: bool

definition GET_CHUNK_COUNT :: "zone \<Rightarrow> 64 word" where
  "GET_CHUNK_COUNT z = ZONE_USER_SIZE div chunk_size z"

definition GET_MAX_BITMASK_INDEX :: "zone \<Rightarrow> 64 word" where
  "GET_MAX_BITMASK_INDEX z = drop_bit 3 (bitmap_size z)"

definition POINTER_FROM_BITSLOT :: "zone \<Rightarrow> 64 word \<Rightarrow> 64 word" where
  "POINTER_FROM_BITSLOT z bit_slot =
     user_pages_start z + signed_drop_bit 1 bit_slot * chunk_size z"

definition UNMASK_USER_PTR :: "zone \<Rightarrow> 64 word" where
  "UNMASK_USER_PTR z = user_pages_start z XOR pointer_mask z"

definition MASK_ZONE_PTRS :: "zone \<Rightarrow> zone" where
  "MASK_ZONE_PTRS z =
     z\<lparr>user_pages_start := user_pages_start z XOR pointer_mask z,
       bitmap_start := bitmap_start z XOR pointer_mask z\<rparr>"

definition UNMASK_ZONE_PTRS :: "zone \<Rightarrow> zone" where
  "UNMASK_ZONE_PTRS z = MASK_ZONE_PTRS z"

text \<open>
  A read or a write of \<^verbatim>\<open>bm[i]\<close>, with a signed index. Outside the mapped words it
  is a fault.
\<close>

definition bm_read :: "64 word list \<Rightarrow> int \<Rightarrow> error + 64 word" where
  "bm_read bm i = (if 0 \<le> i \<and> i < int (length bm) then Inr (bm ! nat i) else Inl Fault)"

definition bm_write :: "64 word list \<Rightarrow> int \<Rightarrow> 64 word \<Rightarrow> error + 64 word list" where
  "bm_write bm i v =
     (if 0 \<le> i \<and> i < int (length bm) then Inr (bm[nat i := v]) else Inl Fault)"

section \<open>Free-slot cache\<close>

text \<open>The brute-force search of \<^verbatim>\<open>insert_free_bit_slot\<close> under \<^verbatim>\<open>VERIFY_BIT_SLOT_CACHE\<close>.\<close>

definition cache_contains :: "zone \<Rightarrow> 64 word \<Rightarrow> bool" where
  "cache_contains z bit_slot =
     (\<exists>i \<in> set [unat (free_bit_slot_cache_usable z) ..< BIT_SLOT_CACHE_SZ div 8].
        free_bit_slot_cache z i = bit_slot)"

definition insert_free_bit_slot :: "config \<Rightarrow> zone \<Rightarrow> 64 word \<Rightarrow> error + zone" where
  "insert_free_bit_slot cfg z bit_slot =
     (if VERIFY_BIT_SLOT_CACHE cfg \<and> cache_contains z bit_slot
      then Inl (Abort CacheContainsBitSlot)
      else if unat (free_bit_slot_cache_index z) \<ge> BIT_SLOT_CACHE_SZ then Inr z
      else Inr (z\<lparr>free_bit_slot_cache :=
                     (free_bit_slot_cache z)(unat (free_bit_slot_cache_index z) := bit_slot),
                  free_bit_slot_cache_index := free_bit_slot_cache_index z + 1\<rparr>))"

definition get_next_free_bit_slot :: "zone \<Rightarrow> 64 word \<times> zone" where
  "get_next_free_bit_slot z =
     (if unat (free_bit_slot_cache_usable z) \<ge> BIT_SLOT_CACHE_SZ \<or>
         free_bit_slot_cache_usable z > free_bit_slot_cache_index z
      then (BAD_BIT_SLOT, z)
      else
        let u = unat (free_bit_slot_cache_usable z);
            s = free_bit_slot_cache z u
        in (s, z\<lparr>next_free_bit_slot := s,
                  free_bit_slot_cache := (free_bit_slot_cache z)(u := BAD_BIT_SLOT),
                  free_bit_slot_cache_usable := free_bit_slot_cache_usable z + 1\<rparr>))"

text \<open>
  \<^verbatim>\<open>fill_free_bit_slot_cache\<close>. The inner loop over the 32 slots of the word \<open>b\<close> at
  index \<open>bm_idx\<close>, from bit \<open>j\<close>; the third component says that the function returned
  from inside the loop.
\<close>

function fill_scan_word ::
  "64 word \<Rightarrow> int \<Rightarrow> nat \<Rightarrow> (nat \<Rightarrow> 64 word) \<Rightarrow> nat \<Rightarrow> (nat \<Rightarrow> 64 word) \<times> nat \<times> bool" where
  "fill_scan_word b bm_idx j c n =
     (if j < BITS_PER_QWORD then
        (if n \<ge> BIT_SLOT_CACHE_SZ then (c, n, True)
         else if GET_BIT b j = 0
         then fill_scan_word b bm_idx (j + BITS_PER_CHUNK)
                (c(n := push_bit BITS_PER_QWORD_SHIFT (word_of_int bm_idx) + of_nat j)) (n + 1)
         else fill_scan_word b bm_idx (j + BITS_PER_CHUNK) c n)
      else (c, n, False))"
  by pat_completeness auto
termination
  by (relation "measure (\<lambda>(b, bm_idx, j, c, n). BITS_PER_QWORD - j)")
     (auto simp: BITS_PER_QWORD_def BITS_PER_CHUNK_def)

text \<open>The outer loop, over the words of the bitmap from \<open>bm_idx\<close>.\<close>

function fill_scan ::
  "64 word list \<Rightarrow> int \<Rightarrow> int \<Rightarrow> (nat \<Rightarrow> 64 word) \<Rightarrow> nat
     \<Rightarrow> error + ((nat \<Rightarrow> 64 word) \<times> nat \<times> bool)" where
  "fill_scan bm max_bitmap_idx bm_idx c n =
     (if n < BIT_SLOT_CACHE_SZ then
        (if bm_idx \<ge> max_bitmap_idx then Inr (c, n, True)
         else case bm_read bm bm_idx of
           Inl e \<Rightarrow> Inl e
         | Inr b \<Rightarrow>
             (case fill_scan_word b bm_idx 0 c n of
                (c', n', returned) \<Rightarrow>
                  if returned then Inr (c', n', True)
                  else fill_scan bm max_bitmap_idx (bm_idx + 1) c' n'))
      else Inr (c, n, False))"
  by pat_completeness auto
termination
  by (relation "measure (\<lambda>(bm, max_bitmap_idx, bm_idx, c, n). nat (max_bitmap_idx - bm_idx))")
     auto

declare fill_scan_word.simps [simp del] fill_scan.simps [simp del]

text \<open>The Fisher-Yates shuffle under \<^verbatim>\<open>SHUFFLE_BIT_SLOT_CACHE\<close>, from index \<open>i\<close> down to 1.\<close>

fun shuffle_cache :: "nat \<Rightarrow> (nat \<Rightarrow> 64 word) \<Rightarrow> rng \<Rightarrow> (nat \<Rightarrow> 64 word) \<times> rng" where
  "shuffle_cache 0 c g = (c, g)"
| "shuffle_cache (Suc i) c g =
     (case rand_uint64 g of
        (r, g') \<Rightarrow>
          let j = unat (ucast (r mod of_nat (Suc i + 1)) :: 8 word);
              t = c j
          in shuffle_cache i (c(j := c (Suc i), Suc i := t)) g')"

definition fill_free_bit_slot_cache :: "config \<Rightarrow> zone \<Rightarrow> rng \<Rightarrow> error + (zone \<times> rng)" where
  "fill_free_bit_slot_cache cfg z g =
     (let max_bitmap_idx = GET_MAX_BITMASK_INDEX z;
          (bm_idx, g1) =
            (if sint max_bitmap_idx > sint ALIGNMENT
             then (case rand_uint64 g of
                     (r, g') \<Rightarrow>
                       (signed_drop_bit 32 (ucast (ucast r :: 32 word) * (max_bitmap_idx - 1)), g'))
             else (0, g));
          z1 = z\<lparr>free_bit_slot_cache := (\<lambda>i. BAD_BIT_SLOT), free_bit_slot_cache_usable := 0\<rparr>
      in case fill_scan (bitmap z) (sint max_bitmap_idx) (sint bm_idx) (free_bit_slot_cache z1) 0 of
           Inl e \<Rightarrow> Inl e
         | Inr (c, n, returned) \<Rightarrow>
             if returned
             then Inr (z1\<lparr>free_bit_slot_cache := c, free_bit_slot_cache_index := of_nat n\<rparr>, g1)
             else if SHUFFLE_BIT_SLOT_CACHE cfg \<and> n > 1
             then (case shuffle_cache (n - 1) c g1 of
                     (c', g2) \<Rightarrow>
                       Inr (z1\<lparr>free_bit_slot_cache := c', free_bit_slot_cache_index := of_nat n\<rparr>, g2))
             else Inr (z1\<lparr>free_bit_slot_cache := c, free_bit_slot_cache_index := of_nat n\<rparr>, g1))"

section \<open>Canaries\<close>

text \<open>
  The user pages are a map from the address of an aligned 8-byte word to its value;
  protection faults on them are not modelled. \<^verbatim>\<open>check_canary\<close> returns normally or
  aborts.
\<close>

type_synonym mem = "64 word \<Rightarrow> 64 word"

definition canary_value :: "config \<Rightarrow> zone \<Rightarrow> 64 word \<Rightarrow> 64 word" where
  "canary_value cfg z p = (canary_secret z XOR p) AND CANARY_VALIDATE_MASK cfg"

definition write_canary :: "config \<Rightarrow> zone \<Rightarrow> mem \<Rightarrow> 64 word \<Rightarrow> mem" where
  "write_canary cfg z m p =
     (if CANARIES cfg
      then m(p := canary_value cfg z p, p + (chunk_size z - 8) := canary_value cfg z p)
      else m)"

definition check_canary :: "config \<Rightarrow> zone \<Rightarrow> mem \<Rightarrow> 64 word \<Rightarrow> error + unit" where
  "check_canary cfg z m p =
     (if \<not> CANARIES cfg then Inr ()
      else if m p \<noteq> canary_value cfg z p then Inl (Abort CanaryCorrupted)
      else if m (p + chunk_size z - 8) \<noteq> canary_value cfg z p then Inl (Abort CanaryCorrupted)
      else Inr ())"

definition iso_clear_user_chunk :: "mem \<Rightarrow> 64 word \<Rightarrow> 64 word \<Rightarrow> mem" where
  "iso_clear_user_chunk m p sz = (\<lambda>a. if a - p < sz then 0xdededededededede else m a)"

text \<open>
  \<^verbatim>\<open>create_canary_chunks\<close>. \<^verbatim>\<open>ALIGN_SZ_DOWN\<close> is a macro of the missing header,
  a parameter of the configuration. \<open>canary_bm_idx\<close> is the word index chosen from the
  random number \<open>r\<close>; the loop runs \<open>n\<close> more times. A modulus of zero is undefined.
\<close>

definition canary_bm_idx :: "config \<Rightarrow> 64 word \<Rightarrow> 64 word \<Rightarrow> 64 word" where
  "canary_bm_idx cfg r max_bitmap_idx =
     (let a = ALIGN_SZ_DOWN cfg (r mod max_bitmap_idx)
      in if 0 > sint a then 0 else a)"

fun canary_loop ::
  "config \<Rightarrow> 64 word \<Rightarrow> nat \<Rightarrow> zone \<Rightarrow> mem \<Rightarrow> rng \<Rightarrow> error + (zone \<times> mem \<times> rng)" where
  "canary_loop cfg max_bitmap_idx 0 z m g = Inr (z, m, g)"
| "canary_loop cfg max_bitmap_idx (Suc n) z m g =
     (case rand_uint64 g of
        (r, g') \<Rightarrow>
          if max_bitmap_idx = 0 then Inl Undefined
          else
            let bm_idx = canary_bm_idx cfg r max_bitmap_idx
            in case bm_read (bitmap z) (sint bm_idx) of
                 Inl e \<Rightarrow> Inl e
               | Inr b \<Rightarrow>
                   if GET_BIT b 0 \<noteq> 0
                   then canary_loop cfg max_bitmap_idx n z m g'
                   else
                     let z' = z\<lparr>bitmap := (bitmap z)[nat (sint bm_idx) := SET_BIT (SET_BIT b 0) 1]\<rparr>;
                         p = POINTER_FROM_BITSLOT z' (push_bit BITS_PER_QWORD_SHIFT bm_idx)
                     in canary_loop cfg max_bitmap_idx n z'
                          (write_canary cfg z' m p) g')"

definition create_canary_chunks ::
  "config \<Rightarrow> zone \<Rightarrow> mem \<Rightarrow> rng \<Rightarrow> error + (zone \<times> mem \<times> rng)" where
  "create_canary_chunks cfg z m g =
     (if \<not> CANARIES cfg then Inr (z, m, g)
      else if chunk_size z > MAX_DEFAULT_ZONE_SZ then Inr (z, m, g)
      else if chunk_size z = 0 then Inl Undefined
      else canary_loop cfg (GET_MAX_BITMASK_INDEX z - 1)
             (unat (GET_CHUNK_COUNT z div CANARY_COUNT_DIV)) z m g)"

section \<open>Thread caches\<close>

text \<open>
  The thread-local zone cache and chunk quarantine: arrays with a count. A cached zone
  is its index, with the chunk size stored beside it.
\<close>

record tcache =
  zone_cache :: "nat \<Rightarrow> nat \<times> 64 word"
  zone_cache_count :: nat
  chunk_quarantine :: "nat \<Rightarrow> 64 word"
  chunk_quarantine_count :: nat

definition populate_zone_cache :: "zone \<Rightarrow> tcache \<Rightarrow> tcache" where
  "populate_zone_cache z tc =
     (if \<not> internal z then tc
      else if zone_cache_count tc \<noteq> 0 \<and> fst (zone_cache tc (zone_cache_count tc - 1)) = index z
      then tc
      else if zone_cache_count tc < ZONE_CACHE_SZ
      then tc\<lparr>zone_cache := (zone_cache tc)(zone_cache_count tc := (index z, chunk_size z)),
              zone_cache_count := zone_cache_count tc + 1\<rparr>
      else tc\<lparr>zone_cache_count := 0,
              zone_cache := (zone_cache tc)(0 := (index z, chunk_size z))\<rparr>)"

definition clear_zone_cache :: "tcache \<Rightarrow> tcache" where
  "clear_zone_cache tc = tc\<lparr>zone_cache := (\<lambda>i. (0, 0)), zone_cache_count := 0\<rparr>"

definition clear_chunk_quarantine :: "tcache \<Rightarrow> tcache" where
  "clear_chunk_quarantine tc = tc\<lparr>chunk_quarantine := (\<lambda>i. 0), chunk_quarantine_count := 0\<rparr>"

section \<open>Allocation from a bit-slot\<close>

text \<open>
  \<^verbatim>\<open>_iso_alloc_bitslot_from_zone\<close> (a leading underscore of the source is written
  \<open>u_\<close>). The caller has unmasked the pointers of the zone. The result is the chunk
  pointer with the new zone and user memory.
\<close>

definition u_iso_alloc_bitslot_from_zone ::
  "config \<Rightarrow> 64 word \<Rightarrow> zone \<Rightarrow> mem \<Rightarrow> error + (64 word \<times> zone \<times> mem)" where
  "u_iso_alloc_bitslot_from_zone cfg bitslot z m =
     (let dwords_to_bit_slot = sint (signed_drop_bit BITS_PER_QWORD_SHIFT bitslot);
          which_bit = WHICH_BIT bitslot;
          p = POINTER_FROM_BITSLOT z bitslot
      in case bm_read (bitmap z) dwords_to_bit_slot of
           Inl e \<Rightarrow> Inl e
         | Inr b \<Rightarrow>
             if p > user_pages_start z + ZONE_USER_SIZE then Inl (Abort OutsideUserPages)
             else if GET_BIT b which_bit \<noteq> 0 then Inl (Abort AllocatedChunk)
             else if which_bit + 1 \<ge> BITS_PER_QWORD then Inl Undefined
             else
               (case (if CANARIES cfg \<and> GET_BIT b (which_bit + 1) = 1
                      then (case check_canary cfg z m p of
                              Inl e \<Rightarrow> Inl e
                            | Inr u \<Rightarrow> Inr (m(p := 0)))
                      else Inr m) of
                  Inl e \<Rightarrow> Inl e
                | Inr m' \<Rightarrow>
                    Inr (p,
                         z\<lparr>bitmap := (bitmap z)[nat dwords_to_bit_slot :=
                                        UNSET_BIT (SET_BIT b which_bit) (which_bit + 1)],
                           af_count := af_count z + 1,
                           alloc_count := alloc_count z + 1\<rparr>,
                         m')))"

section \<open>Free from a zone\<close>

text \<open>
  The verification of the neighbour of chunk \<open>chunk_number\<close> at \<open>nb\<close>, whose canary is
  at address \<open>q\<close>.
\<close>

definition check_neighbour ::
  "config \<Rightarrow> zone \<Rightarrow> mem \<Rightarrow> 64 word \<Rightarrow> 64 word \<Rightarrow> error + unit" where
  "check_neighbour cfg z m nb q =
     (let bit_slot_nb = push_bit BITS_PER_CHUNK_SHIFT nb
      in case bm_read (bitmap z) (sint (signed_drop_bit BITS_PER_QWORD_SHIFT bit_slot_nb)) of
           Inl e \<Rightarrow> Inl e
         | Inr w \<Rightarrow>
             if GET_BIT w (WHICH_BIT bit_slot_nb + 1) = 1 then check_canary cfg z m q
             else Inr ())"

text \<open>
  \<^verbatim>\<open>iso_free_chunk_from_zone\<close>. The pointers of the zone are masked, as they are at
  rest.
\<close>

definition iso_free_chunk_from_zone ::
  "config \<Rightarrow> zone \<Rightarrow> mem \<Rightarrow> tcache \<Rightarrow> 64 word \<Rightarrow> bool \<Rightarrow> error + (zone \<times> mem \<times> tcache)" where
  "iso_free_chunk_from_zone cfg z m tc p permanent =
     (if IS_ALIGNED p \<noteq> 0 then Inl (Abort NotAligned)
      else
        let chunk_offset = p - UNMASK_USER_PTR z
        in if chunk_offset AND (chunk_size z - 1) \<noteq> 0 then Inl (Abort NotChunkMultiple)
        else if chunk_size z = 0 then Inl Undefined
        else
          let chunk_number = chunk_offset div chunk_size z;
              bit_slot = push_bit BITS_PER_CHUNK_SHIFT chunk_number;
              dwords_to_bit_slot = sint (signed_drop_bit BITS_PER_QWORD_SHIFT bit_slot)
          in if dwords_to_bit_slot > sint (drop_bit 3 (bitmap_size z))
             then Inl (Abort BitmapLocation)
          else
            let which_bit = WHICH_BIT bit_slot
            in case bm_read (bitmap z) dwords_to_bit_slot of
                 Inl e \<Rightarrow> Inl e
               | Inr b \<Rightarrow>
                   if GET_BIT b which_bit = 0 then Inl (Abort DoubleFree)
                   else if which_bit + 1 \<ge> BITS_PER_QWORD then Inl Undefined
                   else
                     let b1 = SET_BIT b (which_bit + 1)
                     in case (if \<not> permanent
                              then (case insert_free_bit_slot cfg z bit_slot of
                                      Inl e \<Rightarrow> Inl e
                                    | Inr z1 \<Rightarrow>
                                        Inr (UNSET_BIT b1 which_bit,
                                             z1\<lparr>is_full := False\<rparr>,
                                             if SANITIZE cfg
                                             then iso_clear_user_chunk m p (chunk_size z)
                                             else m))
                              else Inr (b1, z, iso_clear_user_chunk m p (chunk_size z))) of
                          Inl e \<Rightarrow> Inl e
                        | Inr (b2, z2, m2) \<Rightarrow>
                            let z3 = z2\<lparr>bitmap := (bitmap z2)[nat dwords_to_bit_slot := b2],
                                       af_count := af_count z2 - 1\<rparr>;
                                m3 = write_canary cfg z3 m2 p
                            in case (if CANARIES cfg \<and> chunk_number + 1 \<noteq> GET_CHUNK_COUNT z3
                                     then check_neighbour cfg z3 m3 (chunk_number + 1)
                                            (p + chunk_size z3)
                                     else Inr ()) of
                                 Inl e \<Rightarrow> Inl e
                               | Inr u \<Rightarrow>
                                   (case (if CANARIES cfg \<and> chunk_number \<noteq> 0
                                          then check_neighbour cfg z3 m3 (chunk_number - 1)
                                                 (p - chunk_size z3)
                                          else Inr ()) of
                                      Inl e \<Rightarrow> Inl e
                                    | Inr u \<Rightarrow> Inr (z3, m3, populate_zone_cache z3 tc)))"

section \<open>The allocator state\<close>

text \<open>
  \<^verbatim>\<open>iso_alloc_big_zone_t\<close>, the metadata of one big allocation. Its fields carry the
  prefix \<open>big_\<close> where a zone has a field of the same name.
\<close>

record big_zone =
  big_user_pages_start :: "64 word"
  big_size :: "64 word"
  big_free :: bool
  big_next :: "64 word"
  canary_a :: "64 word"
  canary_b :: "64 word"

text \<open>
  The root, the globals of \<^verbatim>\<open>iso_alloc.c\<close> and the memory they point to.
  \<open>root_present\<close> is \<^verbatim>\<open>_root != NULL\<close>; \<open>zones\<close> is the array \<^verbatim>\<open>_root->zones\<close>,
  whose unused entries are zero; \<open>big_heap\<close> maps the address of each mapped big-zone
  record to its contents; \<open>umem\<close> is the user memory of the zones; \<open>rand\<close> is the
  random number generator and \<open>os_mmap\<close> the stream of the addresses that
  \<^verbatim>\<open>mmap\<close> will return, \<open>- 1\<close> being \<^verbatim>\<open>MAP_FAILED\<close>. A null pointer is 0.
\<close>

record iso_state =
  root_present :: bool
  zones :: "nat \<Rightarrow> zone"
  zones_used :: nat
  big_zone_head :: "64 word"
  big_zone_next_mask :: "64 word"
  big_zone_canary_secret :: "64 word"
  zone_handle_mask :: "64 word"
  system_page_size :: "64 word"
  big_heap :: "64 word \<Rightarrow> big_zone option"
  umem :: mem
  thread :: tcache
  zone_lookup_table :: "64 word \<Rightarrow> nat"
  chunk_lookup_table :: "nat \<Rightarrow> nat"
  zero_alloc_page :: "64 word"
  rand :: rng
  os_mmap :: "nat \<Rightarrow> 64 word"

text \<open>Modelled from the spec: \<^verbatim>\<open>ROUND_UP_PAGE\<close> of the missing header, "round size up to a page".\<close>

definition ROUND_UP_PAGE :: "config \<Rightarrow> 64 word \<Rightarrow> 64 word" where
  "ROUND_UP_PAGE cfg n = (n + g_page_size cfg - 1) AND NOT (g_page_size cfg - 1)"

section \<open>Operating-system pages\<close>

text \<open>
  \<^verbatim>\<open>mmap_pages\<close> of \<^verbatim>\<open>iso_alloc_util.c\<close>: it draws a random hint unless built for
  ASAN, takes the next address from the operating system and aborts on \<^verbatim>\<open>MAP_FAILED\<close>.
  \<^verbatim>\<open>mprotect\<close> and \<^verbatim>\<open>madvise\<close> are taken to succeed.
\<close>

definition mmap_pages :: "config \<Rightarrow> iso_state \<Rightarrow> error + (64 word \<times> iso_state)" where
  "mmap_pages cfg st =
     (let st1 = (if \<not> ENABLE_ASAN cfg then st\<lparr>rand := snd (rand_uint64 (rand st))\<rparr> else st);
          p = os_mmap st1 0;
          st2 = st1\<lparr>os_mmap := (\<lambda>n. os_mmap st1 (Suc n))\<rparr>
      in if p = - 1 then Inl (Abort MmapFailed) else Inr (p, st2))"

definition mmap_rw_pages :: "config \<Rightarrow> iso_state \<Rightarrow> error + (64 word \<times> iso_state)" where
  "mmap_rw_pages cfg st = mmap_pages cfg st"

definition create_guard_page ::
  "config \<Rightarrow> iso_state \<Rightarrow> 64 word \<Rightarrow> error + (64 word \<times> iso_state)" where
  "create_guard_page cfg st p =
     (if p = 0
      then (case mmap_rw_pages cfg st of
              Inl e \<Rightarrow> Inl e
            | Inr (p', st') \<Rightarrow> if p' = 0 then Inl (Abort GuardPageFailed) else Inr (p', st'))
      else Inr (p, st))"

text \<open>\<^verbatim>\<open>next_pow2\<close> of \<^verbatim>\<open>iso_alloc_util.c\<close>.\<close>

definition next_pow2 :: "64 word \<Rightarrow> 64 word" where
  "next_pow2 sz =
     (let s1 = sz OR drop_bit 1 sz;
          s2 = s1 OR drop_bit 2 s1;
          s3 = s2 OR drop_bit 4 s2;
          s4 = s3 OR drop_bit 8 s3;
          s5 = s4 OR drop_bit 16 s4;
          s6 = s5 OR drop_bit 32 s5
      in s6 + 1)"

section \<open>Big zones\<close>

definition bswap64 :: "64 word \<Rightarrow> 64 word" where
  "bswap64 w =
     push_bit 56 (w AND 0xFF) OR push_bit 40 (w AND 0xFF00) OR
     push_bit 24 (w AND 0xFF0000) OR push_bit 8 (w AND 0xFF000000) OR
     drop_bit 8 (w AND 0xFF00000000) OR drop_bit 24 (w AND 0xFF0000000000) OR
     drop_bit 40 (w AND 0xFF000000000000) OR drop_bit 56 w"

definition big_canary :: "iso_state \<Rightarrow> 64 word \<Rightarrow> 64 word \<Rightarrow> 64 word" where
  "big_canary st big ups = big XOR bswap64 ups XOR big_zone_canary_secret st"

definition check_big_canary :: "config \<Rightarrow> iso_state \<Rightarrow> 64 word \<Rightarrow> big_zone \<Rightarrow> error + unit" where
  "check_big_canary cfg st big bz =
     (if \<not> CANARIES cfg then Inr ()
      else if canary_a bz \<noteq> big_canary st big (big_user_pages_start bz)
      then Inl (Abort BigCanaryCorrupted)
      else if canary_b bz \<noteq> big_canary st big (big_user_pages_start bz)
      then Inl (Abort BigCanaryCorrupted)
      else Inr ())"

definition UNMASK_BIG_ZONE_NEXT :: "iso_state \<Rightarrow> 64 word \<Rightarrow> 64 word" where
  "UNMASK_BIG_ZONE_NEXT st p = p XOR big_zone_next_mask st"

definition MASK_BIG_ZONE_NEXT :: "iso_state \<Rightarrow> 64 word \<Rightarrow> 64 word" where
  "MASK_BIG_ZONE_NEXT st p = p XOR big_zone_next_mask st"

text \<open>
  The walks of the big-zone list follow the masked \<^verbatim>\<open>next\<close> pointers and need not end
  on a corrupted list: \<open>None\<close> is a walk that does not return. Reading a record at an
  address that holds none is a fault.

  The search of \<^verbatim>\<open>_iso_big_alloc\<close> for a free entry of at least \<open>sz\<close> bytes, from
  \<open>big\<close>; it yields the entry found, or null, and the last entry passed.
\<close>

partial_function (option) big_alloc_walk ::
  "config \<Rightarrow> iso_state \<Rightarrow> 64 word \<Rightarrow> 64 word \<Rightarrow> 64 word \<Rightarrow> (error + (64 word \<times> 64 word)) option" where
  "big_alloc_walk cfg st sz big last_big =
     (if big = 0 then Some (Inr (0, last_big))
      else case big_heap st big of
        None \<Rightarrow> Some (Inl Fault)
      | Some bz \<Rightarrow>
          (case check_big_canary cfg st big bz of
             Inl e \<Rightarrow> Some (Inl e)
           | Inr u \<Rightarrow>
               if big_free bz \<and> big_size bz \<ge> sz then Some (Inr (big, last_big))
               else if big_next bz \<noteq> 0
               then big_alloc_walk cfg st sz (UNMASK_BIG_ZONE_NEXT st (big_next bz)) big
               else Some (Inr (0, big))))"

text \<open>
  The branch of \<^verbatim>\<open>_iso_big_alloc\<close> that maps a new big zone after \<open>last_big\<close>. The
  guard page made of the first page of the user mapping, which is not null there, is a
  change of protection only.
\<close>

definition big_alloc_new ::
  "config \<Rightarrow> iso_state \<Rightarrow> 64 word \<Rightarrow> 64 word \<Rightarrow> error + (64 word \<times> iso_state)" where
  "big_alloc_new cfg st sz last_big =
     (case mmap_rw_pages cfg st of
        Inl e \<Rightarrow> Inl e
      | Inr (user_pages, st1) \<Rightarrow>
          if user_pages = 0
          then (if ABORT_ON_NULL cfg then Inl (Abort AbortOnNull) else Inr (0, st1))
          else
            (case mmap_rw_pages cfg st1 of
               Inl e \<Rightarrow> Inl e
             | Inr (p, st2) \<Rightarrow>
                 (case create_guard_page cfg st2 p of
                    Inl e \<Rightarrow> Inl e
                  | Inr (gp, st3) \<Rightarrow>
                      (case rand_uint64 (rand st3) of
                         (r, g') \<Rightarrow>
                           let random_offset = (ucast (ucast (ALIGN_SZ_DOWN cfg r) :: 32 word) :: 64 word);
                               s = system_page_size st3 - (BIG_ZONE_META_SZ cfg - 1);
                               big = (p + system_page_size st3) + drop_bit 32 (random_offset * s);
                               ups = user_pages + system_page_size st3;
                               c = big_canary st3 big ups;
                               bz = \<lparr>big_user_pages_start = ups, big_size = sz,
                                     big_free = False, big_next = 0,
                                     canary_a = c, canary_b = c\<rparr>;
                               h1 = (big_heap st3)(big := Some bz)
                           in case (if last_big \<noteq> 0
                                    then (case h1 last_big of
                                            None \<Rightarrow> Inl Fault
                                          | Some lz \<Rightarrow>
                                              Inr (h1(last_big :=
                                                     Some (lz\<lparr>big_next := MASK_BIG_ZONE_NEXT st3 big\<rparr>))))
                                    else Inr h1) of
                                Inl e \<Rightarrow> Inl e
                              | Inr h2 \<Rightarrow>
                                  let st4 = st3\<lparr>rand := g', big_heap := h2,
                                               big_zone_head :=
                                                 (if big_zone_head st3 = 0
                                                  then MASK_BIG_ZONE_NEXT st3 big
                                                  else big_zone_head st3)\<rparr>
                                  in case create_guard_page cfg st4
                                            (p + push_bit 1 (system_page_size st4)) of
                                       Inl e \<Rightarrow> Inl e
                                     | Inr (gp1, st5) \<Rightarrow>
                                         (case create_guard_page cfg st5 (ups + sz) of
                                            Inl e \<Rightarrow> Inl e
                                          | Inr (gp2, st6) \<Rightarrow> Inr (ups, st6))))))"

definition u_iso_big_alloc ::
  "config \<Rightarrow> iso_state \<Rightarrow> 64 word \<Rightarrow> (error + (64 word \<times> iso_state)) option" where
  "u_iso_big_alloc cfg st sz =
     (let new_size = ROUND_UP_PAGE cfg sz
      in if new_size < sz \<or> new_size > BIG_SZ_MAX cfg then Some (Inl (Abort BigTooLarge))
         else
           (case big_alloc_walk cfg st new_size
                   (if big_zone_head st \<noteq> 0 then UNMASK_BIG_ZONE_NEXT st (big_zone_head st) else 0)
                   0 of
              None \<Rightarrow> None
            | Some (Inl e) \<Rightarrow> Some (Inl e)
            | Some (Inr (big, last_big)) \<Rightarrow>
                if big = 0 then Some (big_alloc_new cfg st new_size last_big)
                else
                  (case big_heap st big of
                     None \<Rightarrow> Some (Inl Fault)
                   | Some bz \<Rightarrow>
                       (case check_big_canary cfg st big bz of
                          Inl e \<Rightarrow> Some (Inl e)
                        | Inr u \<Rightarrow>
                            Some (Inr (big_user_pages_start bz,
                                       st\<lparr>big_heap :=
                                            (big_heap st)(big := Some (bz\<lparr>big_free := False\<rparr>))\<rparr>))))))"

text \<open>\<^verbatim>\<open>iso_find_big_zone\<close>: the big zone whose user pages start at \<open>p\<close>, or null.\<close>

partial_function (option) big_find_walk ::
  "config \<Rightarrow> iso_state \<Rightarrow> 64 word \<Rightarrow> 64 word \<Rightarrow> (error + 64 word) option" where
  "big_find_walk cfg st p big =
     (if big = 0 then Some (Inr 0)
      else case big_heap st big of
        None \<Rightarrow> Some (Inl Fault)
      | Some bz \<Rightarrow>
          (case check_big_canary cfg st big bz of
             Inl e \<Rightarrow> Some (Inl e)
           | Inr u \<Rightarrow>
               if p = big_user_pages_start bz then Some (Inr big)
               else if p > big_user_pages_start bz \<and> p < big_user_pages_start bz + big_size bz
               then Some (Inl (Abort InvalidBigFree))
               else if big_next bz \<noteq> 0
               then big_find_walk cfg st p (UNMASK_BIG_ZONE_NEXT st (big_next bz))
               else Some (Inr 0)))"

definition iso_find_big_zone :: "config \<Rightarrow> iso_state \<Rightarrow> 64 word \<Rightarrow> (error + 64 word) option" where
  "iso_find_big_zone cfg st p =
     big_find_walk cfg st p
       (if big_zone_head st \<noteq> 0 then UNMASK_BIG_ZONE_NEXT st (big_zone_head st) else 0)"

text \<open>
  The loop of \<^verbatim>\<open>iso_free_big_zone\<close> that removes \<open>big_zone\<close> from the list, from
  \<open>big\<close>; it yields the state and the entry where it stopped, or null.
\<close>

partial_function (option) big_unlink_walk ::
  "config \<Rightarrow> iso_state \<Rightarrow> 64 word \<Rightarrow> 64 word \<Rightarrow> (error + (iso_state \<times> 64 word)) option" where
  "big_unlink_walk cfg st big_zone big =
     (if big = 0 then Some (Inr (st, 0))
      else case big_heap st big of
        None \<Rightarrow> Some (Inl Fault)
      | Some bz \<Rightarrow>
          (case check_big_canary cfg st big bz of
             Inl e \<Rightarrow> Some (Inl e)
           | Inr u \<Rightarrow>
               if UNMASK_BIG_ZONE_NEXT st (big_next bz) = big_zone
               then (case big_heap st big_zone of
                       None \<Rightarrow> Some (Inl Fault)
                     | Some tz \<Rightarrow>
                         Some (Inr (st\<lparr>big_heap :=
                                        (big_heap st)(big :=
                                           Some (bz\<lparr>big_next :=
                                                     UNMASK_BIG_ZONE_NEXT st (big_next tz)\<rparr>))\<rparr>,
                                    big)))
               else if big_next bz \<noteq> 0
               then big_unlink_walk cfg st big_zone (UNMASK_BIG_ZONE_NEXT st (big_next bz))
               else Some (Inr (st, 0))))"

text \<open>
  \<^verbatim>\<open>iso_free_big_zone\<close>. The contents of the user pages of a big zone are not
  modelled. A permanent free protects the page of the record, which leaves the heap.
\<close>

definition iso_free_big_zone ::
  "config \<Rightarrow> iso_state \<Rightarrow> 64 word \<Rightarrow> bool \<Rightarrow> (error + iso_state) option" where
  "iso_free_big_zone cfg st big_zone permanent =
     (case big_heap st big_zone of
        None \<Rightarrow> Some (Inl Fault)
      | Some bz \<Rightarrow>
          if big_free bz then Some (Inl (Abort DoubleFreeBig))
          else if \<not> permanent
          then Some (Inr (st\<lparr>big_heap := (big_heap st)(big_zone := Some (bz\<lparr>big_free := True\<rparr>))\<rparr>))
          else
            let big = (if big_zone_head st \<noteq> 0
                       then UNMASK_BIG_ZONE_NEXT st (big_zone_head st) else 0)
            in case (if big = big_zone then Some (Inr (st\<lparr>big_zone_head := 0\<rparr>, big))
                     else big_unlink_walk cfg st big_zone big) of
                 None \<Rightarrow> None
               | Some (Inl e) \<Rightarrow> Some (Inl e)
               | Some (Inr (st1, big1)) \<Rightarrow>
                   if big1 = 0 then Some (Inl (Abort BigListCorrupted))
                   else Some (Inr (st1\<lparr>big_heap := (big_heap st1)(big_zone := None)\<rparr>)))"

section \<open>Sequencing\<close>

text \<open>
  An operation that can abort yields \<open>error + 'a\<close>; one that can also fail to return
  yields \<open>(error + 'a) option\<close>. \<open>thenE\<close> and \<open>thenP\<close> run a second operation on the
  result of a first that returned.
\<close>

definition thenE :: "error + 'a \<Rightarrow> ('a \<Rightarrow> error + 'b) \<Rightarrow> error + 'b" where
  "thenE x f = (case x of Inl e \<Rightarrow> Inl e | Inr a \<Rightarrow> f a)"

definition thenP :: "(error + 'a) option \<Rightarrow> ('a \<Rightarrow> (error + 'b) option) \<Rightarrow> (error + 'b) option" where
  "thenP x f = (case x of None \<Rightarrow> None | Some (Inl e) \<Rightarrow> Some (Inl e) | Some (Inr a) \<Rightarrow> f a)"

section \<open>Finding a free slot\<close>

text \<open>
  \<^verbatim>\<open>iso_scan_zone_free_slot\<close> and \<^verbatim>\<open>iso_scan_zone_free_slot_slow\<close>, from the word
  index \<open>i\<close>. The words of the bitmap are signed (\<open>bitmap_index_t\<close>), so the comparison
  with \<open>ALLOCATED_BITSLOTS\<close> is.
\<close>

function scan_free_slot :: "64 word list \<Rightarrow> int \<Rightarrow> int \<Rightarrow> error + 64 word" where
  "scan_free_slot bm max_bm_idx i =
     (if i < max_bm_idx then
        (case bm_read bm i of
           Inl e \<Rightarrow> Inl e
         | Inr b \<Rightarrow>
             if b = 0 then Inr (push_bit BITS_PER_QWORD_SHIFT (word_of_int i))
             else scan_free_slot bm max_bm_idx (i + 1))
      else Inr BAD_BIT_SLOT)"
  by pat_completeness auto
termination
  by (relation "measure (\<lambda>(bm, max_bm_idx, i). nat (max_bm_idx - i))") auto

definition iso_scan_zone_free_slot :: "zone \<Rightarrow> error + 64 word" where
  "iso_scan_zone_free_slot z = scan_free_slot (bitmap z) (sint (GET_MAX_BITMASK_INDEX z)) 0"

function scan_slow_word :: "64 word \<Rightarrow> int \<Rightarrow> nat \<Rightarrow> 64 word option" where
  "scan_slow_word b i j =
     (if j < BITS_PER_QWORD then
        (if sint b < sint ALLOCATED_BITSLOTS \<and> GET_BIT b j = 0
         then Some (push_bit BITS_PER_QWORD_SHIFT (word_of_int i) + of_nat j)
         else scan_slow_word b i (j + BITS_PER_CHUNK))
      else None)"
  by pat_completeness auto
termination
  by (relation "measure (\<lambda>(b, i, j). BITS_PER_QWORD - j)")
     (auto simp: BITS_PER_QWORD_def BITS_PER_CHUNK_def)

function scan_free_slot_slow :: "64 word list \<Rightarrow> int \<Rightarrow> int \<Rightarrow> error + 64 word" where
  "scan_free_slot_slow bm max_bm_idx i =
     (if i < max_bm_idx then
        (case bm_read bm i of
           Inl e \<Rightarrow> Inl e
         | Inr b \<Rightarrow>
             (case scan_slow_word b i 0 of
                Some s \<Rightarrow> Inr s
              | None \<Rightarrow> scan_free_slot_slow bm max_bm_idx (i + 1)))
      else Inr BAD_BIT_SLOT)"
  by pat_completeness auto
termination
  by (relation "measure (\<lambda>(bm, max_bm_idx, i). nat (max_bm_idx - i))") auto

declare scan_free_slot.simps [simp del] scan_slow_word.simps [simp del]
  scan_free_slot_slow.simps [simp del]

definition iso_scan_zone_free_slot_slow :: "zone \<Rightarrow> error + 64 word" where
  "iso_scan_zone_free_slot_slow z =
     scan_free_slot_slow (bitmap z) (sint (GET_MAX_BITMASK_INDEX z)) 0"

text \<open>
  \<^verbatim>\<open>is_zone_usable\<close>: whether the zone can serve \<open>sz\<close> bytes (the source returns the
  zone or null), with the zone and the generator as it leaves them.
\<close>

definition is_zone_usable ::
  "config \<Rightarrow> zone \<Rightarrow> rng \<Rightarrow> 64 word \<Rightarrow> error + (bool \<times> zone \<times> rng)" where
  "is_zone_usable cfg z g sz =
     (if is_full z then Inr (False, z, g)
      else if internal z \<and> sz > ZONE_1024 \<and>
              chunk_size z \<ge> push_bit (WASTED_SZ_MULTIPLIER_SHIFT cfg) sz
      then Inr (False, z, g)
      else if next_free_bit_slot z \<noteq> BAD_BIT_SLOT then Inr (True, z, g)
      else
        thenE (if free_bit_slot_cache_usable (UNMASK_ZONE_PTRS z)
                    \<ge> free_bit_slot_cache_index (UNMASK_ZONE_PTRS z)
               then fill_free_bit_slot_cache cfg (UNMASK_ZONE_PTRS z) g
               else Inr (UNMASK_ZONE_PTRS z, g))
          (\<lambda>(z1, g1).
             case get_next_free_bit_slot z1 of
               (bit_slot, z2) \<Rightarrow>
                 if bit_slot \<noteq> BAD_BIT_SLOT then Inr (True, MASK_ZONE_PTRS z2, g1)
                 else
                   thenE (iso_scan_zone_free_slot z2)
                     (\<lambda>bit_slot1.
                        if bit_slot1 = BAD_BIT_SLOT
                        then thenE (iso_scan_zone_free_slot_slow z2)
                               (\<lambda>bit_slot2.
                                  if bit_slot2 = BAD_BIT_SLOT
                                  then Inr (False, (MASK_ZONE_PTRS z2)\<lparr>is_full := True\<rparr>, g1)
                                  else Inr (True,
                                            (MASK_ZONE_PTRS z2)\<lparr>next_free_bit_slot := bit_slot2\<rparr>,
                                            g1))
                        else Inr (True,
                                  MASK_ZONE_PTRS (z2\<lparr>next_free_bit_slot := bit_slot1\<rparr>),
                                  g1))))"

text \<open>\<^verbatim>\<open>iso_does_zone_fit\<close>, the check of \<^verbatim>\<open>iso_find_zone_fit\<close>.\<close>

definition iso_does_zone_fit ::
  "config \<Rightarrow> zone \<Rightarrow> rng \<Rightarrow> 64 word \<Rightarrow> error + (bool \<times> zone \<times> rng)" where
  "iso_does_zone_fit cfg z g sz =
     (if chunk_size z \<ge> ZONE_1024 \<and> sz \<le> ZONE_128 then Inr (False, z, g)
      else if chunk_size z < sz \<or> \<not> internal z \<or> is_full z then Inr (False, z, g)
      else is_zone_usable cfg z g sz)"

text \<open>The same check on the zone at index \<open>i\<close> of the root.\<close>

definition zone_fits :: "config \<Rightarrow> iso_state \<Rightarrow> nat \<Rightarrow> 64 word \<Rightarrow> error + (bool \<times> iso_state)" where
  "zone_fits cfg st i sz =
     (if i \<ge> MAX_ZONES then Inl Fault
      else thenE (iso_does_zone_fit cfg (zones st i) (rand st) sz)
             (\<lambda>(fits, z', g'). Inr (fits, st\<lparr>zones := (zones st)(i := z'), rand := g'\<rparr>)))"

section \<open>Zone creation\<close>

text \<open>
  Modelled from the spec: \<^verbatim>\<open>is_pow2\<close>, whose definition is not among the source files;
  the chunk size "is rounded up to a power of two".
\<close>

definition is_pow2 :: "64 word \<Rightarrow> bool" where
  "is_pow2 sz = (sz AND (sz - 1) = 0)"

text \<open>A zone record after \<^verbatim>\<open>memset(new_zone, 0x0, sizeof(iso_alloc_zone_t))\<close>; no bitmap is mapped.\<close>

definition zero_zone :: zone where
  "zero_zone =
     \<lparr>user_pages_start = 0, bitmap_start = 0, bitmap = [], next_free_bit_slot = 0,
      free_bit_slot_cache = (\<lambda>i. 0), canary_secret = 0, pointer_mask = 0, chunk_size = 0,
      bitmap_size = 0, af_count = 0, alloc_count = 0, index = 0, next_sz_index = 0,
      free_bit_slot_cache_index = 0, free_bit_slot_cache_usable = 0, internal = False,
      is_full = False\<rparr>"

text \<open>
  \<^verbatim>\<open>_iso_new_zone\<close> in four steps. First the record with its chunk size and the size
  of its bitmap (a \<^verbatim>\<open>uint32_t\<close>, at least one word).
\<close>

definition new_zone_init :: "64 word \<Rightarrow> bool \<Rightarrow> zone" where
  "new_zone_init sz intern =
     (let nz = zero_zone\<lparr>internal := intern, is_full := False, chunk_size := sz\<rparr>;
          chunk_count = GET_CHUNK_COUNT nz;
          bsz = (ucast (ucast (drop_bit BITS_PER_BYTE_SHIFT
                                 (push_bit BITS_PER_CHUNK_SHIFT chunk_count)) :: 32 word) :: 64 word)
      in nz\<lparr>bitmap_size := (if bsz > 8 then bsz else 8)\<rparr>)"

text \<open>
  Then the mappings of the bitmap and of the user pages, each between two guard pages.
  Fresh pages are zero: the bitmap has the words of its pages, and the user memory of
  the zone reads 0.
\<close>

definition new_zone_map :: "config \<Rightarrow> iso_state \<Rightarrow> zone \<Rightarrow> error + (zone \<times> iso_state)" where
  "new_zone_map cfg st nz =
     thenE (mmap_rw_pages cfg st)
       (\<lambda>(p, st1).
          thenE (create_guard_page cfg st1 p)
            (\<lambda>(gp1, st2).
               thenE (create_guard_page cfg st2
                        (ROUND_UP_PAGE cfg (p + (bitmap_size nz + system_page_size st2))))
                 (\<lambda>(gp2, st3).
                    thenE (mmap_rw_pages cfg st3)
                      (\<lambda>(p2, st4).
                         thenE (create_guard_page cfg st4 p2)
                           (\<lambda>(gp3, st5).
                              thenE (create_guard_page cfg st5
                                       (ROUND_UP_PAGE cfg
                                          (p2 + (ZONE_USER_SIZE + system_page_size st5))))
                                (\<lambda>(gp4, st6).
                                   let ups = p2 + system_page_size st;
                                       nz1 = nz\<lparr>bitmap_start := p + system_page_size st,
                                                bitmap := replicate
                                                  (unat (ROUND_UP_PAGE cfg (bitmap_size nz)) div 8) 0,
                                                user_pages_start := ups\<rparr>
                                   in Inr (nz1,
                                           st6\<lparr>umem := (\<lambda>a. if a - ups < ZONE_USER_SIZE then 0
                                                              else umem st6 a)\<rparr>)))))))"

text \<open>
  Then the index, the two secrets, the canary chunks, the free-slot cache and the first
  dequeue.
\<close>

definition new_zone_seed :: "config \<Rightarrow> iso_state \<Rightarrow> zone \<Rightarrow> error + (zone \<times> iso_state)" where
  "new_zone_seed cfg st nz =
     (case rand_uint64 (rand st) of
        (r1, g1) \<Rightarrow>
          (case rand_uint64 g1 of
             (r2, g2) \<Rightarrow>
               thenE (create_canary_chunks cfg
                        (nz\<lparr>index := zones_used st, canary_secret := r1, pointer_mask := r2\<rparr>)
                        (umem st) g2)
                 (\<lambda>(z1, m1, g3).
                    thenE (fill_free_bit_slot_cache cfg z1 g3)
                      (\<lambda>(z2, g4).
                         Inr (snd (get_next_free_bit_slot z2),
                              st\<lparr>umem := m1, rand := g4\<rparr>)))))"

text \<open>
  The walk along \<^verbatim>\<open>next_sz_index\<close> from the first zone of the size, which appends the
  new zone to the chain; it need not end on a corrupted chain.
\<close>

partial_function (option) new_zone_chain ::
  "iso_state \<Rightarrow> 64 word \<Rightarrow> nat \<Rightarrow> nat \<Rightarrow> (error + iso_state) option" where
  "new_zone_chain st sz new_index i =
     (if i < zones_used st then
        (if chunk_size (zones st i) \<noteq> sz then Some (Inl (Abort LookupTableSizes))
         else if next_sz_index (zones st i) \<noteq> 0
         then new_zone_chain st sz new_index (next_sz_index (zones st i))
         else Some (Inr (st\<lparr>zones := (zones st)(i := (zones st i)\<lparr>next_sz_index := new_index\<rparr>)\<rparr>)))
      else Some (Inr st))"

text \<open>
  Last the lookup tables, for an internal zone, and the zone itself, with its pointers
  masked, at index \<open>zones_used\<close>.
\<close>

definition new_zone_publish ::
  "config \<Rightarrow> iso_state \<Rightarrow> zone \<Rightarrow> (error + (nat option \<times> iso_state)) option" where
  "new_zone_publish cfg st nz =
     thenP (if internal nz
            then (let st1 = st\<lparr>chunk_lookup_table :=
                                 (chunk_lookup_table st)
                                   (ADDR_TO_CHUNK_TABLE cfg (user_pages_start nz) := index nz)\<rparr>
                  in if zone_lookup_table st1 (chunk_size nz) = 0
                     then Some (Inr (st1\<lparr>zone_lookup_table :=
                                           (zone_lookup_table st1)(chunk_size nz := index nz)\<rparr>))
                     else new_zone_chain st1 (chunk_size nz) (index nz)
                            (zone_lookup_table st1 (chunk_size nz)))
            else Some (Inr st))
       (\<lambda>st2. Some (Inr (Some (zones_used st2),
                         st2\<lparr>zones := (zones st2)(zones_used st2 := MASK_ZONE_PTRS nz),
                             zones_used := zones_used st2 + 1\<rparr>)))"

definition u_iso_new_zone ::
  "config \<Rightarrow> iso_state \<Rightarrow> 64 word \<Rightarrow> bool \<Rightarrow> (error + (nat option \<times> iso_state)) option" where
  "u_iso_new_zone cfg st sz0 intern =
     (if zones_used st \<ge> MAX_ZONES then Some (Inl (Abort TooManyZones))
      else
        let sz1 = (if \<not> is_pow2 sz0 then next_pow2 sz0 else sz0)
        in if sz1 > SMALL_SZ_MAX cfg then Some (Inr (None, st))
           else
             let sz = (if sz1 < SMALLEST_CHUNK_SZ cfg then SMALLEST_CHUNK_SZ cfg else sz1)
             in thenP (Some (new_zone_map cfg st (new_zone_init sz intern)))
                  (\<lambda>(nz1, st1).
                     thenP (Some (new_zone_seed cfg st1 nz1))
                       (\<lambda>(nz2, st2). new_zone_publish cfg st2 nz2)))"

section \<open>Finding a zone for a request\<close>

text \<open>
  \<^verbatim>\<open>iso_find_zone_fit\<close>. First the chain of the zones of the size, from the lookup
  table; it yields the zone that fits, if any, and the index where it stopped, which the
  second loop starts from under \<^verbatim>\<open>SMALL_MEM_STARTUP\<close> for sizes below 512.
\<close>

partial_function (option) find_fit_chain ::
  "config \<Rightarrow> iso_state \<Rightarrow> 64 word \<Rightarrow> nat \<Rightarrow> (error + (nat option \<times> nat \<times> iso_state)) option" where
  "find_fit_chain cfg st sz i =
     (if i < zones_used st then
        (if chunk_size (zones st i) \<noteq> sz then Some (Inl (Abort LookupTableSizes))
         else if \<not> internal (zones st i) then Some (Inl (Abort LookupTablePrivate))
         else case zone_fits cfg st i sz of
           Inl e \<Rightarrow> Some (Inl e)
         | Inr (fits, st1) \<Rightarrow>
             if fits then Some (Inr (Some i, i, st1))
             else if next_sz_index (zones st1 i) \<noteq> 0
             then find_fit_chain cfg st1 sz (next_sz_index (zones st1 i))
             else Some (Inr (None, i, st1)))
      else Some (Inr (None, i, st)))"

text \<open>
  Then all the zones, from index \<open>i\<close>. The check of a zone changes that zone and the
  generator only; the recursive calls restore \<open>zones_used\<close>, and the thread caches in
  \<open>zone_cache_probe\<close> below, which it has not changed, for the sake of the termination
  proofs.
\<close>

function find_fit_linear ::
  "config \<Rightarrow> iso_state \<Rightarrow> 64 word \<Rightarrow> nat \<Rightarrow> error + (nat option \<times> iso_state)" where
  "find_fit_linear cfg st sz i =
     (if i < zones_used st then
        (case zone_fits cfg st i sz of
           Inl e \<Rightarrow> Inl e
         | Inr (fits, st1) \<Rightarrow>
             if fits then Inr (Some i, st1)
             else find_fit_linear cfg (st1\<lparr>zones_used := zones_used st\<rparr>) sz (i + 1))
      else Inr (None, st))"
  by pat_completeness auto
termination
  by (relation "measure (\<lambda>(cfg, st, sz, i). zones_used st - i)") auto

declare find_fit_linear.simps [simp del]

definition iso_find_zone_fit ::
  "config \<Rightarrow> iso_state \<Rightarrow> 64 word \<Rightarrow> (error + (nat option \<times> iso_state)) option" where
  "iso_find_zone_fit cfg st sz0 =
     (let sz = (if IS_ALIGNED sz0 \<noteq> 0 then ALIGN_SZ_UP cfg sz0 else sz0)
      in thenP (if zone_lookup_table st sz \<noteq> 0
                then find_fit_chain cfg st sz (zone_lookup_table st sz)
                else Some (Inr (None, 0, st)))
           (\<lambda>(found, i, st1).
              case found of
                Some zi \<Rightarrow> Some (Inr (Some zi, st1))
              | None \<Rightarrow>
                  Some (find_fit_linear cfg st1 sz
                          (if SMALL_MEM_STARTUP cfg
                           then (if sz \<ge> ZONE_512 \<and> sz \<le> MAX_DEFAULT_ZONE_SZ
                                 then DEFAULT_ZONE_COUNT cfg div 2
                                 else if sz > MAX_DEFAULT_ZONE_SZ then DEFAULT_ZONE_COUNT cfg
                                 else i)
                           else 0))))"

section \<open>Allocation\<close>

text \<open>
  The probe of the thread zone cache in \<^verbatim>\<open>_iso_alloc\<close>, from entry \<open>i\<close>: the first
  cached zone whose stored chunk size is at least \<open>sz\<close> and that fits.
\<close>

function zone_cache_probe ::
  "config \<Rightarrow> iso_state \<Rightarrow> 64 word \<Rightarrow> nat \<Rightarrow> error + (nat option \<times> iso_state)" where
  "zone_cache_probe cfg st sz i =
     (if i < zone_cache_count (thread st) then
        (if i \<ge> ZONE_CACHE_SZ then Inl Fault
         else if snd (zone_cache (thread st) i) \<ge> sz
         then (case zone_fits cfg st (fst (zone_cache (thread st) i)) sz of
                 Inl e \<Rightarrow> Inl e
               | Inr (fits, st1) \<Rightarrow>
                   if fits then Inr (Some (fst (zone_cache (thread st) i)), st1)
                   else zone_cache_probe cfg (st1\<lparr>thread := thread st\<rparr>) sz (i + 1))
         else zone_cache_probe cfg st sz (i + 1))
      else Inr (None, st))"
  by pat_completeness auto
termination
  by (relation "measure (\<lambda>(cfg, st, sz, i). zone_cache_count (thread st) - i)") auto

declare zone_cache_probe.simps [simp del]

text \<open>
  The end of the small path: the allocation of the bit-slot \<open>free_bit_slot\<close> from the
  zone at index \<open>zi\<close>, between the unmasking and the masking of its pointers.
\<close>

definition alloc_from_zone ::
  "config \<Rightarrow> iso_state \<Rightarrow> nat \<Rightarrow> 64 word \<Rightarrow> error + (64 word \<times> iso_state)" where
  "alloc_from_zone cfg st zi free_bit_slot =
     thenE (u_iso_alloc_bitslot_from_zone cfg free_bit_slot
              ((UNMASK_ZONE_PTRS (zones st zi))\<lparr>next_free_bit_slot := BAD_BIT_SLOT\<rparr>) (umem st))
       (\<lambda>(p, z1, m1).
          let z2 = MASK_ZONE_PTRS z1
          in Inr (p, st\<lparr>zones := (zones st)(zi := z2), umem := m1,
                        thread := (if \<not> internal z2 then populate_zone_cache z2 (thread st)
                                   else thread st)\<rparr>))"

text \<open>
  The small, zone-based path of \<^verbatim>\<open>_iso_alloc\<close>, the branch \<open>size <= SMALL_SZ_MAX\<close>,
  for the private zone \<open>zone\<close> or none. A null result is the pointer 0.
\<close>

definition iso_alloc_small ::
  "config \<Rightarrow> iso_state \<Rightarrow> nat option \<Rightarrow> 64 word \<Rightarrow> (error + (64 word \<times> iso_state)) option" where
  "iso_alloc_small cfg st zone sz =
     thenP (case zone of
              None \<Rightarrow> Some (zone_cache_probe cfg st sz 0)
            | Some zi \<Rightarrow> Some (Inr (Some zi, st)))
       (\<lambda>(zone1, st1).
          thenP (case zone1 of
                   None \<Rightarrow> iso_find_zone_fit cfg st1 sz
                 | Some zi \<Rightarrow> Some (Inr (Some zi, st1)))
            (\<lambda>(zone2, st2).
               case zone2 of
                 Some zi \<Rightarrow>
                   thenP (if \<not> internal (zones st2 zi)
                          then Some (thenE (is_zone_usable cfg (zones st2 zi) (rand st2) sz)
                                       (\<lambda>(usable, z', g').
                                          Inr (usable,
                                               st2\<lparr>zones := (zones st2)(zi := z'), rand := g'\<rparr>)))
                          else Some (Inr (True, st2)))
                     (\<lambda>(usable, st3).
                        if \<not> usable
                        then (if ABORT_ON_NULL cfg then Some (Inl (Abort AbortOnNull))
                              else Some (Inr (0, st3)))
                        else if next_free_bit_slot (zones st3 zi) = BAD_BIT_SLOT
                        then (if ABORT_ON_NULL cfg then Some (Inl (Abort AbortOnNull))
                              else Some (Inr (0, st3)))
                        else Some (alloc_from_zone cfg st3 zi (next_free_bit_slot (zones st3 zi))))
               | None \<Rightarrow>
                   thenP (u_iso_new_zone cfg st2 sz True)
                     (\<lambda>(nz, st3).
                        case nz of
                          None \<Rightarrow> Some (Inl (Abort NewZoneFailed))
                        | Some zi \<Rightarrow>
                            if next_free_bit_slot (zones st3 zi) = BAD_BIT_SLOT
                            then Some (Inl (Abort NoFreeBitSlots))
                            else Some (alloc_from_zone cfg st3 zi
                                         (next_free_bit_slot (zones st3 zi))))))"

text \<open>
  \<^verbatim>\<open>iso_alloc_initialize_global_root\<close>, for a build with \<^verbatim>\<open>THREAD_SUPPORT\<close>: the
  mappings of the root, of the zone array and of the two lookup tables, the default
  zones, and the three secrets of the root. A guard page at an address that cannot be
  null is a change of protection only.
\<close>

fun new_default_zones ::
  "config \<Rightarrow> iso_state \<Rightarrow> 64 word list \<Rightarrow> (error + iso_state) option" where
  "new_default_zones cfg st [] = Some (Inr st)"
| "new_default_zones cfg st (sz # szs) =
     thenP (u_iso_new_zone cfg st sz True)
       (\<lambda>(nz, st1).
          case nz of
            None \<Rightarrow> Some (Inl (Abort NewZoneFailed))
          | Some zi \<Rightarrow> new_default_zones cfg st1 szs)"

definition iso_alloc_initialize_global_root ::
  "config \<Rightarrow> iso_state \<Rightarrow> (error + iso_state) option" where
  "iso_alloc_initialize_global_root cfg st =
     (if root_present st then Some (Inr st)
      else
        thenP (Some (mmap_rw_pages cfg st))
          (\<lambda>(p, st1).
             if p = 0 then Some (Inl (Abort RootFailed))
             else
               thenP (Some (mmap_rw_pages cfg st1))
                 (\<lambda>(p1, st2).
                    thenP (Some (create_guard_page cfg st2 p1))
                      (\<lambda>(gp1, st3).
                         thenP (Some (mmap_rw_pages cfg st3))
                           (\<lambda>(p2, st4).
                              thenP (Some (mmap_rw_pages cfg st4))
                                (\<lambda>(p3, st5).
                                   thenP (new_default_zones cfg
                                            (st5\<lparr>root_present := True,
                                                 system_page_size := g_page_size cfg,
                                                 zones := (\<lambda>i. zero_zone), zones_used := 0,
                                                 big_zone_head := 0,
                                                 zone_lookup_table := (\<lambda>s. 0),
                                                 chunk_lookup_table := (\<lambda>i. 0)\<rparr>)
                                            (default_zones cfg))
                                     (\<lambda>st6.
                                        case rand_uint64 (rand st6) of
                                          (r1, g1) \<Rightarrow>
                                            (case rand_uint64 g1 of
                                               (r2, g2) \<Rightarrow>
                                                 (case rand_uint64 g2 of
                                                    (r3, g3) \<Rightarrow>
                                                      Some (Inr (st6\<lparr>zone_handle_mask := r1,
                                                                     big_zone_next_mask := r2,
                                                                     big_zone_canary_secret := r3,
                                                                     rand := g3\<rparr>)))))))))))"

text \<open>
  \<^verbatim>\<open>_iso_alloc\<close>, for the private zone \<open>zone\<close> or none: the zero-size sentinel, the
  misuse of a private zone, the lazy creation of the root, and the dispatch on the size
  to the small path or to the big-allocation path.
\<close>

definition u_iso_alloc ::
  "config \<Rightarrow> iso_state \<Rightarrow> nat option \<Rightarrow> 64 word \<Rightarrow> (error + (64 word \<times> iso_state)) option" where
  "u_iso_alloc cfg st zone sz =
     (if NO_ZERO_ALLOCATIONS cfg \<and> sz = 0 \<and> root_present st
      then Some (Inr (zero_alloc_page st, st))
      else if (case zone of None \<Rightarrow> False | Some zi \<Rightarrow> sz > chunk_size (zones st zi))
      then Some (Inl (Abort PrivateZoneTooSmall))
      else if \<not> root_present st \<and> zone \<noteq> None then Some (Inl (Abort RootNullWithZone))
      else
        thenP (iso_alloc_initialize_global_root cfg st)
          (\<lambda>st1.
             if \<not> root_present st \<and> NO_ZERO_ALLOCATIONS cfg \<and> sz = 0
             then Some (Inr (zero_alloc_page st1, st1))
             else if sz \<le> SMALL_SZ_MAX cfg then iso_alloc_small cfg st1 zone sz
             else if zone \<noteq> None then Some (Inl (Abort PrivateZoneBigSize))
             else u_iso_big_alloc cfg st1 sz))"

text \<open>
  \<^verbatim>\<open>_iso_calloc\<close>. \<^verbatim>\<open>__builtin_umul_overflow\<close> multiplies two \<^verbatim>\<open>unsigned int\<close>: the
  two \<^verbatim>\<open>size_t\<close> arguments are converted to 32 bits, and the overflow it reports is
  that of their 32-bit product. The \<^verbatim>\<open>memset\<close> zeroes the \<open>sz\<close> bytes at the pointer
  returned; at a null pointer it faults.
\<close>

definition builtin_umul_overflow :: "32 word \<Rightarrow> 32 word \<Rightarrow> bool" where
  "builtin_umul_overflow a b = (unat a * unat b \<ge> 2 ^ 32)"

definition u_iso_calloc ::
  "config \<Rightarrow> iso_state \<Rightarrow> 64 word \<Rightarrow> 64 word \<Rightarrow> (error + (64 word \<times> iso_state)) option" where
  "u_iso_calloc cfg st nmemb sz =
     (if builtin_umul_overflow (ucast nmemb) (ucast sz) then Some (Inl (Abort CallocOverflow))
      else
        thenP (u_iso_alloc cfg st None (nmemb * sz))
          (\<lambda>(p, st1).
             if p = 0 \<and> nmemb * sz \<noteq> 0 then Some (Inl Fault)
             else Some (Inr (p, st1\<lparr>umem := (\<lambda>a. if a - p < nmemb * sz then 0
                                                  else umem st1 a)\<rparr>))))"

section \<open>Finding the owning zone\<close>

text \<open>\<^verbatim>\<open>iso_find_zone_range\<close>: the zone whose user pages hold \<open>p\<close>, or none.\<close>

definition in_user_range :: "zone \<Rightarrow> 64 word \<Rightarrow> bool" where
  "in_user_range z p = (UNMASK_USER_PTR z \<le> p \<and> UNMASK_USER_PTR z + ZONE_USER_SIZE > p)"

function find_range_cache :: "iso_state \<Rightarrow> 64 word \<Rightarrow> nat \<Rightarrow> error + nat option" where
  "find_range_cache st p i =
     (if i < zone_cache_count (thread st) then
        (if i \<ge> ZONE_CACHE_SZ \<or> fst (zone_cache (thread st) i) \<ge> MAX_ZONES then Inl Fault
         else if in_user_range (zones st (fst (zone_cache (thread st) i))) p
         then Inr (Some (fst (zone_cache (thread st) i)))
         else find_range_cache st p (i + 1))
      else Inr None)"
  by pat_completeness auto
termination
  by (relation "measure (\<lambda>(st, p, i). zone_cache_count (thread st) - i)") auto

function find_range_linear :: "iso_state \<Rightarrow> 64 word \<Rightarrow> nat \<Rightarrow> error + nat option" where
  "find_range_linear st p i =
     (if i < zones_used st then
        (if i \<ge> MAX_ZONES then Inl Fault
         else if in_user_range (zones st i) p then Inr (Some i)
         else find_range_linear st p (i + 1))
      else Inr None)"
  by pat_completeness auto
termination
  by (relation "measure (\<lambda>(st, p, i). zones_used st - i)") auto

declare find_range_cache.simps [simp del] find_range_linear.simps [simp del]

definition iso_find_zone_range :: "config \<Rightarrow> iso_state \<Rightarrow> 64 word \<Rightarrow> error + nat option" where
  "iso_find_zone_range cfg st p =
     (let zone_index = chunk_lookup_table st (ADDR_TO_CHUNK_TABLE cfg p)
      in if zone_index > zones_used st then Inl (Abort LookupTableCorrupted)
         else if zone_index \<ge> MAX_ZONES then Inl Fault
         else if in_user_range (zones st zone_index) p then Inr (Some zone_index)
         else thenE (find_range_cache st p 0)
                (\<lambda>r. case r of
                        Some zi \<Rightarrow> Inr (Some zi)
                      | None \<Rightarrow> find_range_linear st p 0))"

section \<open>Zone retirement and destruction\<close>

definition u_is_zone_retired :: "zone \<Rightarrow> bool" where
  "u_is_zone_retired z =
     (af_count z = 0 \<and> alloc_count z > GET_CHUNK_COUNT z * ZONE_ALLOC_RETIRE \<and>
      internal z \<and> chunk_size z < MAX_DEFAULT_ZONE_SZ * 2)"

text \<open>
  \<^verbatim>\<open>_unmap_zone\<close> of the zone at index \<open>zi\<close>, whose pointers are unmasked: its entry in
  the chunk lookup table is cleared and its bitmap is no longer mapped.
\<close>

definition u_unmap_zone :: "config \<Rightarrow> iso_state \<Rightarrow> nat \<Rightarrow> iso_state" where
  "u_unmap_zone cfg st zi =
     st\<lparr>chunk_lookup_table :=
          (chunk_lookup_table st)(ADDR_TO_CHUNK_TABLE cfg (user_pages_start (zones st zi)) := 0),
        zones := (zones st)(zi := (zones st zi)\<lparr>bitmap := []\<rparr>)\<rparr>"

text \<open>
  \<^verbatim>\<open>_iso_alloc_destroy_zone_unlocked\<close> after the flush of the caches that
  \<open>flush_caches\<close> asks for: a private zone is wiped and primed again as an internal
  zone, or made unusable; an internal zone is unmapped and, when \<open>replace\<close> is set,
  replaced by a new zone of the same size at the same index.
\<close>

definition destroy_zone_core ::
  "config \<Rightarrow> iso_state \<Rightarrow> nat \<Rightarrow> bool \<Rightarrow> (error + iso_state) option" where
  "destroy_zone_core cfg st zi replace =
     (let z = UNMASK_ZONE_PTRS (zones st zi)
      in if \<not> internal z
         then
           (let k = unat (bitmap_size z) div 8;
                z1 = z\<lparr>bitmap := replicate (min k (length (bitmap z))) 0 @ drop k (bitmap z)\<rparr>;
                m1 = (\<lambda>a. if a - user_pages_start z < ZONE_USER_SIZE then 0 else umem st a)
            in if NEVER_REUSE_ZONES cfg
               then Some (Inr (st\<lparr>zones := (zones st)(zi := zero_zone\<lparr>is_full := True\<rparr>),
                                  umem := m1\<rparr>))
               else
                 Some (thenE (create_canary_chunks cfg (z1\<lparr>internal := True, is_full := False\<rparr>)
                                m1 (rand st))
                         (\<lambda>(z2, m2, g2).
                            thenE (fill_free_bit_slot_cache cfg z2 g2)
                              (\<lambda>(z3, g3).
                                 Inr (st\<lparr>zones := (zones st)
                                           (zi := MASK_ZONE_PTRS (snd (get_next_free_bit_slot z3))),
                                         umem := m2, rand := g3\<rparr>)))))
         else if replace
         then
           thenP (u_iso_new_zone cfg
                    ((u_unmap_zone cfg (st\<lparr>zones := (zones st)(zi := z)\<rparr>) zi)
                       \<lparr>zones_used := index z\<rparr>)
                    (chunk_size z) True)
             (\<lambda>(nz, st1). Some (Inr (st1\<lparr>zones_used := zones_used st\<rparr>)))
         else Some (Inr (u_unmap_zone cfg (st\<lparr>zones := (zones st)(zi := z)\<rparr>) zi)))"

section \<open>Free dispatch and quarantine\<close>

text \<open>
  \<^verbatim>\<open>_iso_free_internal_unlocked\<close>, for the zone \<open>zone\<close> or none: the free of a chunk
  from its zone, followed by the retirement of the zone, or the free of a big zone.
\<close>

definition u_iso_free_internal_unlocked ::
  "config \<Rightarrow> iso_state \<Rightarrow> 64 word \<Rightarrow> bool \<Rightarrow> nat option \<Rightarrow> (error + iso_state) option" where
  "u_iso_free_internal_unlocked cfg st p permanent zone =
     thenP (case zone of
              None \<Rightarrow> Some (iso_find_zone_range cfg st p)
            | Some zi \<Rightarrow> Some (Inr (Some zi)))
       (\<lambda>zone1.
          case zone1 of
            Some zi \<Rightarrow>
              thenP (Some (iso_free_chunk_from_zone cfg (zones st zi) (umem st) (thread st)
                             p permanent))
                (\<lambda>(z1, m1, t1).
                   let st1 = st\<lparr>zones := (zones st)(zi := z1), umem := m1, thread := t1\<rparr>
                   in if u_is_zone_retired z1 then destroy_zone_core cfg st1 zi True
                      else Some (Inr st1))
          | None \<Rightarrow>
              thenP (iso_find_big_zone cfg st p)
                (\<lambda>big_zone.
                   if big_zone = 0 then Some (Inl (Abort NoZoneFound))
                   else iso_free_big_zone cfg st big_zone permanent))"

definition u_iso_free_internal ::
  "config \<Rightarrow> iso_state \<Rightarrow> 64 word \<Rightarrow> bool \<Rightarrow> (error + iso_state) option" where
  "u_iso_free_internal cfg st p permanent = u_iso_free_internal_unlocked cfg st p permanent None"

text \<open>
  The drain of the quarantine, from entry \<open>i\<close>, \<open>n\<close> entries being left, as
  \<^verbatim>\<open>_flush_chunk_quarantine\<close> and \<^verbatim>\<open>_iso_free\<close> run it.
\<close>

fun drain_quarantine ::
  "config \<Rightarrow> iso_state \<Rightarrow> nat \<Rightarrow> nat \<Rightarrow> (error + iso_state) option" where
  "drain_quarantine cfg st i 0 = Some (Inr st)"
| "drain_quarantine cfg st i (Suc n) =
     (if i \<ge> CHUNK_QUARANTINE_SZ then Some (Inl Fault)
      else thenP (u_iso_free_internal_unlocked cfg st (chunk_quarantine (thread st) i) False None)
             (\<lambda>st1. drain_quarantine cfg st1 (i + 1) n))"

definition u_flush_chunk_quarantine :: "config \<Rightarrow> iso_state \<Rightarrow> (error + iso_state) option" where
  "u_flush_chunk_quarantine cfg st =
     thenP (drain_quarantine cfg st 0 (chunk_quarantine_count (thread st)))
       (\<lambda>st1. Some (Inr (st1\<lparr>thread := clear_chunk_quarantine (thread st1)\<rparr>)))"

text \<open>
  \<^verbatim>\<open>_iso_alloc_destroy_zone_unlocked\<close> with its flush of the thread caches, and
  \<^verbatim>\<open>_iso_alloc_destroy_zone\<close>.
\<close>

definition u_iso_alloc_destroy_zone_unlocked ::
  "config \<Rightarrow> iso_state \<Rightarrow> nat \<Rightarrow> bool \<Rightarrow> bool \<Rightarrow> (error + iso_state) option" where
  "u_iso_alloc_destroy_zone_unlocked cfg st zi flush_caches replace =
     thenP (if flush_caches
            then u_flush_chunk_quarantine cfg (st\<lparr>thread := clear_zone_cache (thread st)\<rparr>)
            else Some (Inr st))
       (\<lambda>st1. destroy_zone_core cfg st1 zi replace)"

definition u_iso_alloc_destroy_zone :: "config \<Rightarrow> iso_state \<Rightarrow> nat \<Rightarrow> (error + iso_state) option" where
  "u_iso_alloc_destroy_zone cfg st zi = u_iso_alloc_destroy_zone_unlocked cfg st zi True False"

text \<open>
  \<^verbatim>\<open>_iso_free\<close>: null and the zero-size sentinel are ignored; a permanent free is
  immediate; any other pointer enters the quarantine of the thread, which is drained
  first when it is full.
\<close>

definition u_iso_free :: "config \<Rightarrow> iso_state \<Rightarrow> 64 word \<Rightarrow> bool \<Rightarrow> (error + iso_state) option" where
  "u_iso_free cfg st p permanent =
     (if p = 0 then Some (Inr st)
      else if NO_ZERO_ALLOCATIONS cfg \<and> p = zero_alloc_page st then Some (Inr st)
      else if permanent then u_iso_free_internal cfg st p permanent
      else if chunk_quarantine_count (thread st) < CHUNK_QUARANTINE_SZ
      then Some (Inr (st\<lparr>thread := (thread st)
                          \<lparr>chunk_quarantine :=
                             (chunk_quarantine (thread st))(chunk_quarantine_count (thread st) := p),
                           chunk_quarantine_count := chunk_quarantine_count (thread st) + 1\<rparr>\<rparr>))
      else
        thenP (drain_quarantine cfg st 0 (chunk_quarantine_count (thread st)))
          (\<lambda>st1.
             let t1 = clear_chunk_quarantine (thread st1)
             in Some (Inr (st1\<lparr>thread := t1
                                \<lparr>chunk_quarantine :=
                                   (chunk_quarantine t1)(chunk_quarantine_count t1 := p),
                                 chunk_quarantine_count := chunk_quarantine_count t1 + 1\<rparr>\<rparr>))))"

text \<open>
  \<^verbatim>\<open>_iso_free_size\<close>: the sentinel with a size other than 0 aborts; a size above
  \<open>SMALL_SZ_MAX\<close> frees a big zone; otherwise the chunk size of the owning zone must
  hold \<open>sz\<close>, and the chunk is freed at once.
\<close>

definition u_iso_free_size ::
  "config \<Rightarrow> iso_state \<Rightarrow> 64 word \<Rightarrow> 64 word \<Rightarrow> (error + iso_state) option" where
  "u_iso_free_size cfg st p sz =
     (if p = 0 then Some (Inr st)
      else if NO_ZERO_ALLOCATIONS cfg \<and> p = zero_alloc_page st \<and> sz \<noteq> 0
      then Some (Inl (Abort ZeroSizedChunk))
      else if NO_ZERO_ALLOCATIONS cfg \<and> p = zero_alloc_page st then Some (Inr st)
      else if sz > SMALL_SZ_MAX cfg
      then thenP (iso_find_big_zone cfg st p)
             (\<lambda>big_zone.
                if big_zone = 0 then Some (Inl (Abort NoZoneFound))
                else iso_free_big_zone cfg st big_zone False)
      else
        thenP (Some (iso_find_zone_range cfg st p))
          (\<lambda>zone.
             case zone of
               None \<Rightarrow> Some (Inl (Abort NoZoneFound))
             | Some zi \<Rightarrow>
                 if chunk_size (zones st zi) < sz then Some (Inl (Abort InvalidSize))
                 else u_iso_free_internal_unlocked cfg st p False (Some zi)))"

text \<open>\<^verbatim>\<open>_iso_free_from_zone\<close>, the free of a chunk of the private zone \<open>zi\<close>.\<close>

definition u_iso_free_from_zone ::
  "config \<Rightarrow> iso_state \<Rightarrow> 64 word \<Rightarrow> nat \<Rightarrow> bool \<Rightarrow> (error + iso_state) option" where
  "u_iso_free_from_zone cfg st p zi permanent =
     (if p = 0 then Some (Inr st)
      else u_iso_free_internal_unlocked cfg st p permanent (Some zi))"

text \<open>The pointer that an allocation returns, without the state.\<close>

definition result_ptr :: "(error + (64 word \<times> iso_state)) option \<Rightarrow> (error + 64 word) option" where
  "result_ptr r = map_option (map_sum id fst) r"

section \<open>Well-formed states and example values\<close>

text \<open>
  The entries of the free-slot cache from the write cursor on hold \<open>BAD_BIT_SLOT\<close>:
  the refill leaves it so, and enqueue and dequeue keep it.
\<close>

definition cache_tail_bad :: "zone \<Rightarrow> bool" where
  "cache_tail_bad z =
     (\<forall>j \<in> set [unat (free_bit_slot_cache_index z) ..< BIT_SLOT_CACHE_SZ].
        free_bit_slot_cache z j = BAD_BIT_SLOT)"

text \<open>
  The big-zone list in list order: \<open>big_list st big as\<close> holds when the walk from the
  unmasked pointer \<open>big\<close> passes exactly the records at the addresses \<open>as\<close> and ends.
\<close>

fun big_list :: "iso_state \<Rightarrow> 64 word \<Rightarrow> 64 word list \<Rightarrow> bool" where
  "big_list st big [] = (big = 0)"
| "big_list st big (a # as) =
     (big = a \<and> a \<noteq> 0 \<and>
      (case big_heap st a of
         None \<Rightarrow> False
       | Some bz \<Rightarrow>
           if big_next bz = 0 then as = []
           else big_list st (UNMASK_BIG_ZONE_NEXT st (big_next bz)) as))"

definition big_list_start :: "iso_state \<Rightarrow> 64 word" where
  "big_list_start st =
     (if big_zone_head st \<noteq> 0 then UNMASK_BIG_ZONE_NEXT st (big_zone_head st) else 0)"

text \<open>The canaries of the record at \<open>a\<close> verify.\<close>

definition big_canary_ok :: "config \<Rightarrow> iso_state \<Rightarrow> 64 word \<Rightarrow> bool" where
  "big_canary_ok cfg st a =
     (case big_heap st a of
        None \<Rightarrow> False
      | Some bz \<Rightarrow> check_big_canary cfg st a bz = Inr ())"

text \<open>The record at \<open>a\<close> is free and holds at least \<open>sz\<close> bytes.\<close>

definition big_fits :: "iso_state \<Rightarrow> 64 word \<Rightarrow> 64 word \<Rightarrow> bool" where
  "big_fits st sz a =
     (case big_heap st a of
        None \<Rightarrow> False
      | Some bz \<Rightarrow> big_free bz \<and> big_size bz \<ge> sz)"


text \<open>
  The zone that a free retires. \<^verbatim>\<open>_iso_free_internal_unlocked\<close> hands the zone of the
  chunk to \<^verbatim>\<open>_iso_alloc_destroy_zone_unlocked\<close> for replacement when
  \<^verbatim>\<open>_is_zone_retired\<close> holds of it after the free of the chunk, and the new zone is
  created at the index that the record of the retired zone holds.
  \<open>free_retires cfg st p permanent zone\<close> is that index, or none when the free retires
  no zone. \<open>drain_retires\<close> lists the indices that the frees of the drain of the
  quarantine retire, in order, and \<open>iso_free_retires\<close> those that the frees made by
  \<^verbatim>\<open>_iso_free\<close> retire.
\<close>

definition free_retires ::
  "config \<Rightarrow> iso_state \<Rightarrow> 64 word \<Rightarrow> bool \<Rightarrow> nat option \<Rightarrow> nat option" where
  "free_retires cfg st p permanent zone =
     (case (case zone of
              None \<Rightarrow> iso_find_zone_range cfg st p
            | Some zi \<Rightarrow> Inr (Some zi)) of
        Inl e \<Rightarrow> None
      | Inr None \<Rightarrow> None
      | Inr (Some zi) \<Rightarrow>
          (case iso_free_chunk_from_zone cfg (zones st zi) (umem st) (thread st) p permanent of
             Inl e \<Rightarrow> None
           | Inr (z1, m1, t1) \<Rightarrow> if u_is_zone_retired z1 then Some (index z1) else None))"

fun drain_retires :: "config \<Rightarrow> iso_state \<Rightarrow> nat \<Rightarrow> nat \<Rightarrow> nat list" where
  "drain_retires cfg st i 0 = []"
| "drain_retires cfg st i (Suc n) =
     (if i \<ge> CHUNK_QUARANTINE_SZ then []
      else case u_iso_free_internal_unlocked cfg st (chunk_quarantine (thread st) i) False None of
             Some (Inr st1) \<Rightarrow>
               (case free_retires cfg st (chunk_quarantine (thread st) i) False None of
                  None \<Rightarrow> []
                | Some k \<Rightarrow> [k]) @ drain_retires cfg st1 (i + 1) n
           | _ \<Rightarrow> [])"

definition iso_free_retires :: "config \<Rightarrow> iso_state \<Rightarrow> 64 word \<Rightarrow> bool \<Rightarrow> nat list" where
  "iso_free_retires cfg st p permanent =
     (if p = 0 then []
      else if NO_ZERO_ALLOCATIONS cfg \<and> p = zero_alloc_page st then []
      else if permanent
      then (case free_retires cfg st p permanent None of None \<Rightarrow> [] | Some k \<Rightarrow> [k])
      else if chunk_quarantine_count (thread st) < CHUNK_QUARANTINE_SZ then []
      else drain_retires cfg st 0 (chunk_quarantine_count (thread st)))"

text \<open>The bit-slot and the bitmap word that \<^verbatim>\<open>iso_free_chunk_from_zone\<close> computes for \<open>p\<close>.\<close>

definition free_bit_slot :: "zone \<Rightarrow> 64 word \<Rightarrow> 64 word" where
  "free_bit_slot z p =
     push_bit BITS_PER_CHUNK_SHIFT ((p - UNMASK_USER_PTR z) div chunk_size z)"

definition free_word_index :: "zone \<Rightarrow> 64 word \<Rightarrow> int" where
  "free_word_index z p = sint (signed_drop_bit BITS_PER_QWORD_SHIFT (free_bit_slot z p))"

text \<open>
  The chunks of a zone are numbered from 0 to \<open>GET_CHUNK_COUNT\<close>, and chunk \<open>k\<close> has the
  bit-slot \<open>2 * k\<close>: bits \<open>2 * (k mod 32)\<close> and \<open>2 * (k mod 32) + 1\<close> of the bitmap word
  \<open>k div 32\<close>. \<open>slot_in_use\<close> says that this slot is in the in-use state \<open>10\<close> (low bit 1,
  high bit 0), and \<open>in_use_count\<close> is the number of chunks of the zone whose slot is in
  that state. \<open>word_in_use\<close> is the number of the 32 slots of one bitmap word in that
  state.
\<close>

definition slot_in_use :: "64 word list \<Rightarrow> nat \<Rightarrow> bool" where
  "slot_in_use bm k =
     (k div 32 < length bm \<and> bit (bm ! (k div 32)) (2 * (k mod 32)) \<and>
      \<not> bit (bm ! (k div 32)) (2 * (k mod 32) + 1))"

definition in_use_count :: "zone \<Rightarrow> nat" where
  "in_use_count z = length (filter (slot_in_use (bitmap z)) [0 ..< unat (GET_CHUNK_COUNT z)])"

definition word_in_use :: "64 word \<Rightarrow> nat" where
  "word_in_use w = length (filter (\<lambda>j. bit w (2 * j) \<and> \<not> bit w (2 * j + 1)) [0..<32])"

text \<open>
  A build configuration, and a zone of 8192-byte chunks as it is between the unmasking
  and the masking of its pointers: 512 chunks, a bitmap of 128 bytes in a page of 512
  words. Chunk 0 is allocated (\<open>10\<close>), chunk 1 was never used (\<open>00\<close>), chunk 2 was
  freed (\<open>01\<close>) and chunk 3 is a canary chunk (\<open>11\<close>); chunks 2 and 3 carry their
  canaries in \<open>demo_mem\<close>.
\<close>

definition demo_cfg :: config where
  "demo_cfg =
     \<lparr>SMALL_SZ_MAX = 65536,
      BIG_SZ_MAX = 4294967296,
      CANARY_VALIDATE_MASK = 0xFFFFFFFFFFFFFF00,
      WASTED_SZ_MULTIPLIER_SHIFT = 3,
      BIG_ZONE_USER_PAGE_COUNT_SHIFT = 1,
      BIG_ZONE_META_DATA_PAGE_COUNT = 3,
      BIG_ZONE_META_SZ = 48,
      ALIGN_SZ_DOWN = (\<lambda>n. n AND NOT 7),
      ALIGN_SZ_UP = (\<lambda>n. (n + 7) AND NOT 7),
      ADDR_TO_CHUNK_TABLE = (\<lambda>p. unat (drop_bit 32 p)),
      g_page_size = 4096,
      NO_ZERO_ALLOCATIONS = True,
      ABORT_ON_NULL = False,
      VERIFY_BIT_SLOT_CACHE = False,
      SHUFFLE_BIT_SLOT_CACHE = True,
      ENABLE_ASAN = False,
      DISABLE_CANARY = False,
      SANITIZE_CHUNKS = False,
      NEVER_REUSE_ZONES = False,
      SMALL_MEM_STARTUP = False\<rparr>"

definition demo_zone :: zone where
  "demo_zone =
     \<lparr>user_pages_start = 0x10000000,
      bitmap_start = 0x20000000,
      bitmap = (replicate 512 0)[0 := 225],
      next_free_bit_slot = 2,
      free_bit_slot_cache = (\<lambda>i. BAD_BIT_SLOT)(0 := 4, 1 := 8),
      canary_secret = 0x1122334455667788,
      pointer_mask = 0x00005A5A5A5A0000,
      chunk_size = 8192,
      bitmap_size = 128,
      af_count = 1,
      alloc_count = 2,
      index = 1,
      next_sz_index = 0,
      free_bit_slot_cache_index = 2,
      free_bit_slot_cache_usable = 0,
      internal = True,
      is_full = False\<rparr>"

definition demo_mem :: mem where
  "demo_mem =
     (\<lambda>a. 0)(0x10004000 := 0x1122334445663700, 0x10005FF8 := 0x1122334445663700,
             0x10006000 := 0x1122334445661700, 0x10007FF8 := 0x1122334445661700)"

text \<open>
  A random number generator, a thread cache, and a state with a zone of 4096-byte
  chunks at index 0 and the zone above at index 1, at rest, and three big
  zones in the list: of 4096 bytes and free, of 8192 bytes and free, of 16384 bytes and
  in use.
\<close>

definition demo_rng :: rng where
  "demo_rng = (\<lambda>n. 8 + of_nat n)"

definition demo_tc :: tcache where
  "demo_tc =
     \<lparr>zone_cache = (\<lambda>i. (0, 0)), zone_cache_count = 0,
      chunk_quarantine = (\<lambda>i. 0), chunk_quarantine_count = 0\<rparr>"

definition demo_big :: "64 word \<Rightarrow> 64 word \<Rightarrow> 64 word \<Rightarrow> bool \<Rightarrow> 64 word \<Rightarrow> big_zone" where
  "demo_big a ups sz fr nxt =
     \<lparr>big_user_pages_start = ups, big_size = sz, big_free = fr,
      big_next = (if nxt = 0 then 0 else nxt XOR 0x0F0F0F0F0F0F0F0F),
      canary_a = a XOR bswap64 ups XOR 0x1234,
      canary_b = a XOR bswap64 ups XOR 0x1234\<rparr>"

definition demo_zone0 :: zone where
  "demo_zone0 =
     \<lparr>user_pages_start = 0x18000000,
      bitmap_start = 0x28000000,
      bitmap = replicate 512 0,
      next_free_bit_slot = 0,
      free_bit_slot_cache = (\<lambda>i. BAD_BIT_SLOT),
      canary_secret = 0x8877665544332211,
      pointer_mask = 0,
      chunk_size = 4096,
      bitmap_size = 256,
      af_count = 0,
      alloc_count = 0,
      index = 0,
      next_sz_index = 0,
      free_bit_slot_cache_index = 0,
      free_bit_slot_cache_usable = 0,
      internal = True,
      is_full = False\<rparr>"

definition demo_st :: iso_state where
  "demo_st =
     \<lparr>root_present = True,
      zones = (\<lambda>i. zero_zone)(0 := demo_zone0, 1 := MASK_ZONE_PTRS demo_zone),
      zones_used = 2,
      big_zone_head = 0x30001040 XOR 0x0F0F0F0F0F0F0F0F,
      big_zone_next_mask = 0x0F0F0F0F0F0F0F0F,
      big_zone_canary_secret = 0x1234,
      zone_handle_mask = 0x4321,
      system_page_size = 4096,
      big_heap = (\<lambda>a. None)
        (0x30001040 := Some (demo_big 0x30001040 0x40001000 4096 True 0x30005080),
         0x30005080 := Some (demo_big 0x30005080 0x50001000 8192 True 0x30009100),
         0x30009100 := Some (demo_big 0x30009100 0x60001000 16384 False 0)),
      umem = demo_mem,
      thread = demo_tc,
      zone_lookup_table = (\<lambda>s. 0)(8192 := 1),
      chunk_lookup_table = (\<lambda>i. 0)(0 := 1),
      zero_alloc_page = 0x70000000,
      rand = (\<lambda>n. 0xFFFFFFFF),
      os_mmap = (\<lambda>n. 0x80000000 + push_bit 24 (of_nat n))\<rparr>"

text \<open>
  The same state when the zone at index 1 has served 16385 allocations, more than 32
  times its 512 chunks, and holds one live chunk.
\<close>

definition demo_retire :: iso_state where
  "demo_retire =
     demo_st\<lparr>zones := (zones demo_st)(1 := (MASK_ZONE_PTRS demo_zone)\<lparr>alloc_count := 16385\<rparr>)\<rparr>"

text \<open>
  The state \<open>demo_st\<close> when the quarantine of the thread holds one pointer, that of
  chunk 0 of the zone at index 1.
\<close>

definition demo_quarantine :: iso_state where
  "demo_quarantine =
     demo_st\<lparr>thread := demo_tc\<lparr>chunk_quarantine := (\<lambda>i. 0)(0 := 0x10000000),
                                 chunk_quarantine_count := 1\<rparr>\<rparr>"

text \<open>
  The state \<open>demo_st\<close> when the second of the three big zones is in use and the third is
  free: the list holds a free zone of 4096 bytes, a zone of 8192 bytes in use and a free
  zone of 16384 bytes, in that order.
\<close>

definition demo_bigs :: iso_state where
  "demo_bigs =
     demo_st\<lparr>big_heap := (\<lambda>a. None)
        (0x30001040 := Some (demo_big 0x30001040 0x40001000 4096 True 0x30005080),
         0x30005080 := Some (demo_big 0x30005080 0x50001000 8192 False 0x30009100),
         0x30009100 := Some (demo_big 0x30009100 0x60001000 16384 True 0))\<rparr>"

section \<open>Properties of the free-slot cache\<close>

lemma cache_tail_badD:
  "cache_tail_bad z \<Longrightarrow> unat (free_bit_slot_cache_index z) \<le> j \<Longrightarrow> j < 255
     \<Longrightarrow> free_bit_slot_cache z j = BAD_BIT_SLOT"
  by (simp add: cache_tail_bad_def BIT_SLOT_CACHE_SZ_def)

lemma u8_succ: "(u :: 8 word) < i \<Longrightarrow> unat (u + 1) = unat u + 1"
proof -
  assume "u < i"
  then have "unat u < unat i" by (simp add: word_less_nat_alt)
  moreover have "unat i < 256" using unsigned_less [of i, where ?'a = nat] by simp
  ultimately show ?thesis by (simp add: unat_word_ariths)
qed

lemma fill_scan_word_tail:
  "fill_scan_word b i j c n = (c', n', r) \<Longrightarrow> n \<le> BIT_SLOT_CACHE_SZ
     \<Longrightarrow> \<forall>k\<ge>n. c k = BAD_BIT_SLOT
     \<Longrightarrow> n \<le> n' \<and> n' \<le> BIT_SLOT_CACHE_SZ \<and> (\<forall>k\<ge>n'. c' k = BAD_BIT_SLOT)"
proof (induction b i j c n rule: fill_scan_word.induct)
  case (1 b bm_idx j c n)
  note eq = fill_scan_word.simps [of b bm_idx j c n]
  show ?case
  proof (cases "j < BITS_PER_QWORD")
    case False
    with "1.prems" show ?thesis by (simp add: eq)
  next
    case jlt: True
    show ?thesis
    proof (cases "n \<ge> BIT_SLOT_CACHE_SZ")
      case True
      with jlt "1.prems" show ?thesis by (simp add: eq)
    next
      case nlt: False
      show ?thesis
      proof (cases "GET_BIT b j = 0")
        case True
        define v where "v = push_bit BITS_PER_QWORD_SHIFT (word_of_int bm_idx) + (of_nat j :: 64 word)"
        have r: "fill_scan_word b bm_idx (j + BITS_PER_CHUNK) (c(n := v)) (n + 1) = (c', n', r)"
          using "1.prems"(1) jlt nlt True by (simp add: eq v_def)
        have "n + 1 \<le> BIT_SLOT_CACHE_SZ" using nlt by simp
        moreover have "\<forall>k\<ge>n + 1. (c(n := v)) k = BAD_BIT_SLOT"
          using "1.prems"(3) by simp
        ultimately have "n + 1 \<le> n' \<and> n' \<le> BIT_SLOT_CACHE_SZ \<and> (\<forall>k\<ge>n'. c' k = BAD_BIT_SLOT)"
          using "1.IH"(1) [OF jlt nlt True] r unfolding v_def by blast
        then show ?thesis by simp
      next
        case False
        have r: "fill_scan_word b bm_idx (j + BITS_PER_CHUNK) c n = (c', n', r)"
          using "1.prems"(1) jlt nlt False by (simp add: eq)
        show ?thesis
          using "1.IH"(2) [OF jlt nlt False r "1.prems"(2) "1.prems"(3)] .
      qed
    qed
  qed
qed

lemma fill_scan_tail:
  "fill_scan bm mx i c n = Inr (c', n', r) \<Longrightarrow> n \<le> BIT_SLOT_CACHE_SZ
     \<Longrightarrow> \<forall>k\<ge>n. c k = BAD_BIT_SLOT
     \<Longrightarrow> n' \<le> BIT_SLOT_CACHE_SZ \<and> (\<forall>k\<ge>n'. c' k = BAD_BIT_SLOT)"
proof (induction bm mx i c n rule: fill_scan.induct)
  case (1 bm mx i c n)
  show ?case
  proof (cases "n < BIT_SLOT_CACHE_SZ")
    case False
    with "1.prems" show ?thesis by (simp add: fill_scan.simps [of bm mx i c n])
  next
    case nlt: True
    show ?thesis
    proof (cases "i \<ge> mx")
      case True
      with nlt "1.prems" show ?thesis by (simp add: fill_scan.simps [of bm mx i c n])
    next
      case ilt: False
      from "1.prems"(1) nlt ilt obtain b where b: "bm_read bm i = Inr b"
        by (cases "bm_read bm i") (auto simp: fill_scan.simps [of bm mx i c n])
      obtain c1 n1 r1 where w: "fill_scan_word b i 0 c n = (c1, n1, r1)"
        by (cases "fill_scan_word b i 0 c n") auto
      from fill_scan_word_tail [OF w "1.prems"(2) "1.prems"(3)]
      have t1: "n1 \<le> BIT_SLOT_CACHE_SZ" "\<forall>k\<ge>n1. c1 k = BAD_BIT_SLOT" by auto
      show ?thesis
      proof (cases r1)
        case True
        with "1.prems"(1) nlt ilt b w t1 show ?thesis
          by (simp add: fill_scan.simps [of bm mx i c n])
      next
        case False
        with "1.prems"(1) nlt ilt b w
        have "fill_scan bm mx (i + 1) c1 n1 = Inr (c', n', r)"
          by (simp add: fill_scan.simps [of bm mx i c n])
        from "1.IH" [OF nlt ilt b w [symmetric] refl False this t1]
        show ?thesis .
      qed
    qed
  qed
qed

lemma unat_of_nat64: "n < 2 ^ 64 \<Longrightarrow> unat (of_nat n :: 64 word) = n"
  by (simp add: unat_of_nat)

lemma unat_ucast_le: "unat (ucast (w :: 64 word) :: 8 word) \<le> unat w"
  by (metis (mono_tags, lifting) le_unat_uoi linorder_linear of_nat_unat)

lemma shuffle_cache_above:
  "shuffle_cache i c g = (c', g') \<Longrightarrow> i < 255 \<Longrightarrow> \<forall>k>i. c' k = c k"
proof (induction i arbitrary: c g)
  case 0
  then show ?case by simp
next
  case (Suc i)
  obtain r g1 where rg: "rand_uint64 g = (r, g1)" by (cases "rand_uint64 g") auto
  define j where "j = unat (ucast (r mod of_nat (Suc i + 1)) :: 8 word)"
  have k: "unat (of_nat (Suc i + 1) :: 64 word) = Suc i + 1"
    using Suc.prems(2) by (intro unat_of_nat64) simp
  then have "unat (r mod of_nat (Suc i + 1)) < Suc i + 1"
    by (simp add: unat_mod del: of_nat_Suc of_nat_add)
  with unat_ucast_le [of "r mod of_nat (Suc i + 1)"] have jle: "j \<le> Suc i"
    by (simp add: j_def)
  from Suc.prems(1) rg
  have "shuffle_cache i (c(j := c (Suc i), Suc i := c j)) g1 = (c', g')"
    by (simp add: j_def Let_def)
  from Suc.IH [OF this] Suc.prems(2)
  have "\<forall>k>i. c' k = (c(j := c (Suc i), Suc i := c j)) k" by simp
  with jle show ?case by auto
qed


lemma unat_of_nat8: "n \<le> 255 \<Longrightarrow> unat (of_nat n :: 8 word) = n"
  by (simp add: unat_of_nat)

lemma cache_tail_badI:
  "(\<And>j. unat (free_bit_slot_cache_index z) \<le> j \<Longrightarrow> j < 255
      \<Longrightarrow> free_bit_slot_cache z j = BAD_BIT_SLOT) \<Longrightarrow> cache_tail_bad z"
  by (simp add: cache_tail_bad_def BIT_SLOT_CACHE_SZ_def)

lemma fill_free_bit_slot_cache_tail:
  assumes "fill_free_bit_slot_cache cfg z g = Inr (z', g')"
  shows "cache_tail_bad z'"
proof -
  define mx where "mx = GET_MAX_BITMASK_INDEX z"
  define start where "start =
     (if sint mx > sint ALIGNMENT
      then (case rand_uint64 g of
              (r, g') \<Rightarrow> (signed_drop_bit 32 (ucast (ucast r :: 32 word) * (mx - 1)), g'))
      else (0, g))"
  obtain bm_idx g1 where st: "start = (bm_idx, g1)" by (cases start) auto
  from assms obtain c n returned where
    sc: "fill_scan (bitmap z) (sint mx) (sint bm_idx) (\<lambda>i. BAD_BIT_SLOT) 0 = Inr (c, n, returned)"
    using st unfolding fill_free_bit_slot_cache_def Let_def mx_def [symmetric] start_def [symmetric]
    by (auto split: sum.splits prod.splits)
  from fill_scan_tail [OF sc] have n: "n \<le> 255" and t: "\<forall>k\<ge>n. c k = BAD_BIT_SLOT"
    by (simp_all add: BIT_SLOT_CACHE_SZ_def)
  from assms st sc consider
      (plain) "z' = z\<lparr>free_bit_slot_cache := c, free_bit_slot_cache_usable := 0,
                       free_bit_slot_cache_index := of_nat n\<rparr>"
    | (shuffled) c' g2 where "n > 1" "shuffle_cache (n - 1) c g1 = (c', g2)"
        "z' = z\<lparr>free_bit_slot_cache := c', free_bit_slot_cache_usable := 0,
                 free_bit_slot_cache_index := of_nat n\<rparr>"
    unfolding fill_free_bit_slot_cache_def Let_def mx_def [symmetric] start_def [symmetric]
    by (auto split: if_splits prod.splits)
  then show ?thesis
  proof cases
    case plain
    show ?thesis
      by (rule cache_tail_badI) (use plain n t in \<open>simp add: unat_of_nat8\<close>)
  next
    case shuffled
    from shuffle_cache_above [OF shuffled(2)] n shuffled(1)
    have "\<forall>k\<ge>n. c' k = c k" by auto
    with t have "\<forall>k\<ge>n. c' k = BAD_BIT_SLOT" by simp
    then show ?thesis
      by (intro cache_tail_badI) (use shuffled n in \<open>simp add: unat_of_nat8\<close>)
  qed
qed

lemma insert_free_bit_slot_tail:
  assumes "cache_tail_bad z" and "insert_free_bit_slot cfg z s = Inr z'"
  shows "cache_tail_bad z'"
proof (cases "unat (free_bit_slot_cache_index z) \<ge> BIT_SLOT_CACHE_SZ")
  case True
  with assms show ?thesis by (simp add: insert_free_bit_slot_def split: if_splits)
next
  case False
  then have lt: "unat (free_bit_slot_cache_index z) < 255" by (simp add: BIT_SLOT_CACHE_SZ_def)
  then have suc: "unat (free_bit_slot_cache_index z + 1) = unat (free_bit_slot_cache_index z) + 1"
    by (simp add: unat_word_ariths)
  from assms(2) False
  have z': "z' = z\<lparr>free_bit_slot_cache :=
                     (free_bit_slot_cache z)(unat (free_bit_slot_cache_index z) := s),
                   free_bit_slot_cache_index := free_bit_slot_cache_index z + 1\<rparr>"
    by (simp add: insert_free_bit_slot_def split: if_splits)
  show ?thesis
    by (rule cache_tail_badI) (use cache_tail_badD [OF assms(1)] suc in \<open>simp add: z'\<close>)
qed

lemma get_next_free_bit_slot_tail:
  assumes "cache_tail_bad z"
  shows "cache_tail_bad (snd (get_next_free_bit_slot z))"
proof (cases "unat (free_bit_slot_cache_usable z) \<ge> BIT_SLOT_CACHE_SZ \<or>
              free_bit_slot_cache_usable z > free_bit_slot_cache_index z")
  case True
  with assms show ?thesis by (simp add: get_next_free_bit_slot_def)
next
  case False
  then have eq: "snd (get_next_free_bit_slot z) =
      z\<lparr>next_free_bit_slot := free_bit_slot_cache z (unat (free_bit_slot_cache_usable z)),
        free_bit_slot_cache :=
          (free_bit_slot_cache z)(unat (free_bit_slot_cache_usable z) := BAD_BIT_SLOT),
        free_bit_slot_cache_usable := free_bit_slot_cache_usable z + 1\<rparr>"
    by (simp add: get_next_free_bit_slot_def Let_def)
  show ?thesis
    unfolding eq
    by (rule cache_tail_badI) (use cache_tail_badD [OF assms] in simp)
qed

lemma demo_tail: "cache_tail_bad demo_zone"
  by (rule cache_tail_badI) (simp add: demo_zone_def)

lemma demo_tail2: "cache_tail_bad (demo_zone\<lparr>free_bit_slot_cache_usable := 2\<rparr>)"
  by (rule cache_tail_badI) (simp add: demo_zone_def)

text \<open>
  Claim C6. The dequeue \<^verbatim>\<open>get_next_free_bit_slot\<close> returns \<open>BAD_BIT_SLOT\<close> whenever the
  read cursor \<open>free_bit_slot_cache_usable\<close> is greater than or equal to the write cursor
  \<open>free_bit_slot_cache_index\<close>; when the read cursor is below the write cursor it
  returns the entry at the read cursor, overwrites that entry with \<open>BAD_BIT_SLOT\<close> and
  increments the read cursor by one. The zone is one whose cache entries from the write
  cursor on are \<open>BAD_BIT_SLOT\<close>, which the refill establishes
  (\<open>fill_free_bit_slot_cache_tail\<close>) and enqueue and dequeue preserve
  (\<open>insert_free_bit_slot_tail\<close>, \<open>get_next_free_bit_slot_tail\<close>): the code itself
  returns early only when the read cursor is strictly greater, and at equal cursors
  returns the entry under the cursor.
\<close>

theorem get_next_free_bit_slot_dequeue:
  assumes "cache_tail_bad z"
  shows "(free_bit_slot_cache_usable z \<ge> free_bit_slot_cache_index z \<longrightarrow>
            fst (get_next_free_bit_slot z) = BAD_BIT_SLOT) \<and>
         (free_bit_slot_cache_usable z < free_bit_slot_cache_index z \<longrightarrow>
            get_next_free_bit_slot z =
              (free_bit_slot_cache z (unat (free_bit_slot_cache_usable z)),
               z\<lparr>next_free_bit_slot := free_bit_slot_cache z (unat (free_bit_slot_cache_usable z)),
                 free_bit_slot_cache :=
                   (free_bit_slot_cache z)(unat (free_bit_slot_cache_usable z) := BAD_BIT_SLOT),
                 free_bit_slot_cache_usable := free_bit_slot_cache_usable z + 1\<rparr>) \<and>
            unat (free_bit_slot_cache_usable z + 1) = unat (free_bit_slot_cache_usable z) + 1)"
proof (intro conjI impI)
  assume ge: "free_bit_slot_cache_index z \<le> free_bit_slot_cache_usable z"
  show "fst (get_next_free_bit_slot z) = BAD_BIT_SLOT"
  proof (cases "unat (free_bit_slot_cache_usable z) \<ge> BIT_SLOT_CACHE_SZ \<or>
                free_bit_slot_cache_usable z > free_bit_slot_cache_index z")
    case True
    then show ?thesis by (simp add: get_next_free_bit_slot_def)
  next
    case False
    then have lt: "unat (free_bit_slot_cache_usable z) < 255"
      and eq: "free_bit_slot_cache_usable z = free_bit_slot_cache_index z"
      using ge by (auto simp: BIT_SLOT_CACHE_SZ_def)
    have "free_bit_slot_cache z (unat (free_bit_slot_cache_usable z)) = BAD_BIT_SLOT"
      using cache_tail_badD [OF assms _ lt] eq by simp
    with False show ?thesis by (simp add: get_next_free_bit_slot_def Let_def)
  qed
next
  assume lt: "free_bit_slot_cache_usable z < free_bit_slot_cache_index z"
  have "unat (free_bit_slot_cache_usable z) < unat (free_bit_slot_cache_index z)"
    using lt by (simp add: word_less_nat_alt)
  moreover have "unat (free_bit_slot_cache_index z) < 256"
    using unsigned_less [of "free_bit_slot_cache_index z", where ?'a = nat] by simp
  ultimately have "\<not> unat (free_bit_slot_cache_usable z) \<ge> BIT_SLOT_CACHE_SZ"
    by (simp add: BIT_SLOT_CACHE_SZ_def)
  moreover have "\<not> free_bit_slot_cache_usable z > free_bit_slot_cache_index z"
    using lt by simp
  ultimately show "get_next_free_bit_slot z =
              (free_bit_slot_cache z (unat (free_bit_slot_cache_usable z)),
               z\<lparr>next_free_bit_slot := free_bit_slot_cache z (unat (free_bit_slot_cache_usable z)),
                 free_bit_slot_cache :=
                   (free_bit_slot_cache z)(unat (free_bit_slot_cache_usable z) := BAD_BIT_SLOT),
                 free_bit_slot_cache_usable := free_bit_slot_cache_usable z + 1\<rparr>)"
    by (simp add: get_next_free_bit_slot_def Let_def)
  show "unat (free_bit_slot_cache_usable z + 1) = unat (free_bit_slot_cache_usable z) + 1"
    using lt by (rule u8_succ)
qed

theorem get_next_free_bit_slot_dequeue_witness:
  "cache_tail_bad demo_zone \<and>
   free_bit_slot_cache_usable demo_zone < free_bit_slot_cache_index demo_zone \<and>
   fst (get_next_free_bit_slot demo_zone) = 4 \<and>
   free_bit_slot_cache (snd (get_next_free_bit_slot demo_zone)) 0 = BAD_BIT_SLOT \<and>
   free_bit_slot_cache_usable (snd (get_next_free_bit_slot demo_zone)) = 1 \<and>
   cache_tail_bad (demo_zone\<lparr>free_bit_slot_cache_usable := 2\<rparr>) \<and>
   free_bit_slot_cache_usable (demo_zone\<lparr>free_bit_slot_cache_usable := 2\<rparr>)
     \<ge> free_bit_slot_cache_index (demo_zone\<lparr>free_bit_slot_cache_usable := 2\<rparr>) \<and>
   fst (get_next_free_bit_slot (demo_zone\<lparr>free_bit_slot_cache_usable := 2\<rparr>)) = BAD_BIT_SLOT"
proof -
  have lt: "free_bit_slot_cache_usable demo_zone < free_bit_slot_cache_index demo_zone"
    by (simp add: demo_zone_def)
  have ge: "free_bit_slot_cache_usable (demo_zone\<lparr>free_bit_slot_cache_usable := 2\<rparr>)
     \<ge> free_bit_slot_cache_index (demo_zone\<lparr>free_bit_slot_cache_usable := 2\<rparr>)"
    by (simp add: demo_zone_def)
  from get_next_free_bit_slot_dequeue [OF demo_tail] lt
  have g: "get_next_free_bit_slot demo_zone =
              (free_bit_slot_cache demo_zone (unat (free_bit_slot_cache_usable demo_zone)),
               demo_zone\<lparr>next_free_bit_slot :=
                     free_bit_slot_cache demo_zone (unat (free_bit_slot_cache_usable demo_zone)),
                 free_bit_slot_cache :=
                   (free_bit_slot_cache demo_zone)
                     (unat (free_bit_slot_cache_usable demo_zone) := BAD_BIT_SLOT),
                 free_bit_slot_cache_usable := free_bit_slot_cache_usable demo_zone + 1\<rparr>)"
    by blast
  have 1: "fst (get_next_free_bit_slot demo_zone) = 4"
    and 2: "free_bit_slot_cache (snd (get_next_free_bit_slot demo_zone)) 0 = BAD_BIT_SLOT"
    and 3: "free_bit_slot_cache_usable (snd (get_next_free_bit_slot demo_zone)) = 1"
    unfolding g by (simp_all add: demo_zone_def)
  from get_next_free_bit_slot_dequeue [OF demo_tail2] ge
  have 4: "fst (get_next_free_bit_slot (demo_zone\<lparr>free_bit_slot_cache_usable := 2\<rparr>)) = BAD_BIT_SLOT"
    by blast
  show ?thesis using demo_tail demo_tail2 lt ge 1 2 3 4 by blast
qed

section \<open>Properties of the allocation from a bit-slot\<close>


lemma GET_BIT_bit: "GET_BIT n k = of_bool (bit n k)"
  by (simp add: GET_BIT_def and_one_eq mod_2_eq_odd bit_iff_odd_drop_bit)

lemma GET_BIT_eq_0 [simp]: "GET_BIT n k = 0 \<longleftrightarrow> \<not> bit n k"
  by (simp add: GET_BIT_bit)

lemma GET_BIT_eq_1 [simp]: "GET_BIT n k = 1 \<longleftrightarrow> bit n k"
  by (simp add: GET_BIT_bit)

lemma bit_SET_BIT: "bit (SET_BIT n k) j \<longleftrightarrow> bit n j \<or> (j = k \<and> k < 64)"
  by (auto simp: SET_BIT_def bit_or_iff bit_exp_iff possible_bit_word)

lemma bit_UNSET_BIT: "bit (UNSET_BIT n k) j \<longleftrightarrow> bit n j \<and> j \<noteq> k"
  by (auto simp: UNSET_BIT_def bit_and_iff bit_not_iff bit_exp_iff possible_bit_word dest: bit_imp_le_length)

lemma in_use_bits:
  "k + 1 < 64 \<Longrightarrow>
     bit (UNSET_BIT (SET_BIT b k) (k + 1)) j \<longleftrightarrow> (j = k \<or> (j \<noteq> k + 1 \<and> bit b j))"
  by (auto simp: bit_SET_BIT bit_UNSET_BIT)


lemma WHICH_BIT_lt: "WHICH_BIT s < 64"
proof -
  have "s AND 63 \<le> 63" by (rule word_and_le1)
  then show ?thesis by (simp add: WHICH_BIT_def word_le_nat_alt)
qed

lemma WHICH_BIT_even: "even s \<Longrightarrow> even (WHICH_BIT s)"
proof -
  assume "even s"
  then have "even (s AND 63)" by (simp add: even_and_iff)
  then have "\<not> bit (s AND 63) 0" by (simp add: bit_0)
  then have "\<not> bit (unat (s AND 63)) 0" by (simp add: bit_unsigned_iff)
  then show ?thesis by (simp add: WHICH_BIT_def bit_0)
qed

lemma WHICH_BIT_even_lt: "even s \<Longrightarrow> WHICH_BIT s + 1 < 64"
  using WHICH_BIT_lt [of s] WHICH_BIT_even [of s] by (cases "WHICH_BIT s = 63") auto

text \<open>
  Claim C2. Allocation of a bit-slot from a zone (\<^verbatim>\<open>_iso_alloc_bitslot_from_zone\<close>),
  for a slot whose bitmap word \<open>b\<close> is readable: if the low bit of the slot is already
  1 the operation aborts; otherwise (the slot is even, its chunk does not lie beyond the
  end of the user pages and, where the high bit is set, the canaries of the chunk
  verify) it returns the chunk pointer, the low bit of the slot is 1 and its high bit 0
  in the word written back, the other bits of the word are unchanged, and \<open>af_count\<close>
  and \<open>alloc_count\<close> are each incremented by one.
\<close>

theorem alloc_bitslot_marks_in_use:
  assumes rd: "bm_read (bitmap z) (sint (signed_drop_bit BITS_PER_QWORD_SHIFT bitslot)) = Inr b"
  shows "(GET_BIT b (WHICH_BIT bitslot) \<noteq> 0 \<longrightarrow>
            (\<exists>r. u_iso_alloc_bitslot_from_zone cfg bitslot z m = Inl (Abort r))) \<and>
         (GET_BIT b (WHICH_BIT bitslot) = 0 \<and> even bitslot \<and>
          POINTER_FROM_BITSLOT z bitslot \<le> user_pages_start z + ZONE_USER_SIZE \<and>
          (CANARIES cfg \<and> GET_BIT b (WHICH_BIT bitslot + 1) = 1 \<longrightarrow>
             check_canary cfg z m (POINTER_FROM_BITSLOT z bitslot) = Inr ()) \<longrightarrow>
            (\<exists>z' m' b'.
               u_iso_alloc_bitslot_from_zone cfg bitslot z m =
                 Inr (POINTER_FROM_BITSLOT z bitslot, z', m') \<and>
               bitmap z' =
                 (bitmap z)[nat (sint (signed_drop_bit BITS_PER_QWORD_SHIFT bitslot)) := b'] \<and>
               bm_read (bitmap z') (sint (signed_drop_bit BITS_PER_QWORD_SHIFT bitslot)) = Inr b' \<and>
               GET_BIT b' (WHICH_BIT bitslot) = 1 \<and>
               GET_BIT b' (WHICH_BIT bitslot + 1) = 0 \<and>
               (\<forall>j. j \<noteq> WHICH_BIT bitslot \<and> j \<noteq> WHICH_BIT bitslot + 1 \<longrightarrow>
                    GET_BIT b' j = GET_BIT b j) \<and>
               af_count z' = af_count z + 1 \<and>
               alloc_count z' = alloc_count z + 1))"
proof (intro conjI impI)
  assume "GET_BIT b (WHICH_BIT bitslot) \<noteq> 0"
  then show "\<exists>r. u_iso_alloc_bitslot_from_zone cfg bitslot z m = Inl (Abort r)"
    using rd by (simp add: u_iso_alloc_bitslot_from_zone_def Let_def)
next
  assume h: "GET_BIT b (WHICH_BIT bitslot) = 0 \<and> even bitslot \<and>
          POINTER_FROM_BITSLOT z bitslot \<le> user_pages_start z + ZONE_USER_SIZE \<and>
          (CANARIES cfg \<and> GET_BIT b (WHICH_BIT bitslot + 1) = 1 \<longrightarrow>
             check_canary cfg z m (POINTER_FROM_BITSLOT z bitslot) = Inr ())"
  define k where "k = WHICH_BIT bitslot"
  define dw where "dw = sint (signed_drop_bit BITS_PER_QWORD_SHIFT bitslot)"
  define p where "p = POINTER_FROM_BITSLOT z bitslot"
  define b' where "b' = UNSET_BIT (SET_BIT b k) (k + 1)"
  define m' where "m' = (if CANARIES cfg \<and> GET_BIT b (k + 1) = 1 then m(p := 0) else m)"
  define z' where "z' = z\<lparr>bitmap := (bitmap z)[nat dw := b'],
                            af_count := af_count z + 1, alloc_count := alloc_count z + 1\<rparr>"
  have k: "k + 1 < 64" using h WHICH_BIT_even_lt by (simp add: k_def)
  have rng: "0 \<le> dw" "dw < int (length (bitmap z))"
    using rd by (auto simp: bm_read_def dw_def split: if_splits)
  have res: "u_iso_alloc_bitslot_from_zone cfg bitslot z m = Inr (p, z', m')"
    using rd h k
    by (auto simp: u_iso_alloc_bitslot_from_zone_def Let_def BITS_PER_QWORD_def
        k_def [symmetric] dw_def [symmetric] p_def [symmetric] b'_def z'_def m'_def)
  have rd': "bm_read (bitmap z') dw = Inr b'"
    using rng by (simp add: bm_read_def z'_def)
  have bits: "GET_BIT b' k = 1" "GET_BIT b' (k + 1) = 0"
    "\<forall>j. j \<noteq> k \<and> j \<noteq> k + 1 \<longrightarrow> GET_BIT b' j = GET_BIT b j"
    using k by (auto simp: b'_def bit_SET_BIT bit_UNSET_BIT GET_BIT_bit)
  show "\<exists>z' m' b'.
               u_iso_alloc_bitslot_from_zone cfg bitslot z m =
                 Inr (POINTER_FROM_BITSLOT z bitslot, z', m') \<and>
               bitmap z' =
                 (bitmap z)[nat (sint (signed_drop_bit BITS_PER_QWORD_SHIFT bitslot)) := b'] \<and>
               bm_read (bitmap z') (sint (signed_drop_bit BITS_PER_QWORD_SHIFT bitslot)) = Inr b' \<and>
               GET_BIT b' (WHICH_BIT bitslot) = 1 \<and>
               GET_BIT b' (WHICH_BIT bitslot + 1) = 0 \<and>
               (\<forall>j. j \<noteq> WHICH_BIT bitslot \<and> j \<noteq> WHICH_BIT bitslot + 1 \<longrightarrow>
                    GET_BIT b' j = GET_BIT b j) \<and>
               af_count z' = af_count z + 1 \<and>
               alloc_count z' = alloc_count z + 1"
    using res rd' bits
    unfolding k_def dw_def p_def
    by (intro exI [of _ z'] exI [of _ m'] exI [of _ b']) (simp add: z'_def dw_def)
qed


lemma demo_rd0: "bm_read (bitmap demo_zone) (sint (signed_drop_bit BITS_PER_QWORD_SHIFT (0 :: 64 word))) = Inr 225"
  by (simp add: bm_read_def demo_zone_def BITS_PER_QWORD_SHIFT_def)

lemma demo_rd4: "bm_read (bitmap demo_zone) (sint (signed_drop_bit BITS_PER_QWORD_SHIFT (4 :: 64 word))) = Inr 225"
  by (simp add: bm_read_def demo_zone_def BITS_PER_QWORD_SHIFT_def signed_drop_bit_word_numeral)

lemma demo_p4: "POINTER_FROM_BITSLOT demo_zone 4 = 0x10004000"
  by (simp add: POINTER_FROM_BITSLOT_def demo_zone_def)

lemma demo_canary4: "check_canary demo_cfg demo_zone demo_mem 0x10004000 = Inr ()"
  by (simp add: check_canary_def canary_value_def CANARIES_def demo_cfg_def demo_zone_def
      demo_mem_def)

lemma w4: "WHICH_BIT 4 = 4" by (simp add: WHICH_BIT_def)
lemma w0: "WHICH_BIT 0 = 0" by (simp add: WHICH_BIT_def)

lemma g1: "GET_BIT 225 0 = 1" "GET_BIT 225 4 = 0" "GET_BIT 225 5 = 1"
  by (simp_all add: GET_BIT_def)

text \<open>
  The range check of \<^verbatim>\<open>_iso_alloc_bitslot_from_zone\<close> aborts for a chunk address
  beyond the end of the user pages.
\<close>

lemma alloc_bitslot_beyond_end_aborts:
  assumes "bm_read (bitmap z) (sint (signed_drop_bit BITS_PER_QWORD_SHIFT bitslot)) = Inr b"
    and "POINTER_FROM_BITSLOT z bitslot > user_pages_start z + ZONE_USER_SIZE"
  shows "u_iso_alloc_bitslot_from_zone cfg bitslot z m = Inl (Abort OutsideUserPages)"
  using assms by (simp add: u_iso_alloc_bitslot_from_zone_def Let_def)

text \<open>
  Claim C9. The claim is that the allocation aborts, before modifying the bitmap,
  whenever the chunk address of the bit-slot lies outside
  \<open>[user_pages_start, user_pages_start + ZONE_USER_SIZE)\<close>. The code tests only
  \<open>p > user_pages_start + ZONE_USER_SIZE\<close>. In \<open>demo_zone\<close> the bit-slot 1024, twice the
  number of chunks, has the chunk address \<open>user_pages_start + ZONE_USER_SIZE\<close>, the
  first byte after the user pages: the allocation does not abort, sets bit 0 of the
  bitmap word 16 (beyond the 16 words of the bitmap, in the same page), increments both
  counters and returns that address.
\<close>

theorem alloc_bitslot_at_end_of_user_pages:
  "POINTER_FROM_BITSLOT demo_zone 1024 = user_pages_start demo_zone + ZONE_USER_SIZE \<and>
   u_iso_alloc_bitslot_from_zone demo_cfg 1024 demo_zone demo_mem =
     Inr (user_pages_start demo_zone + ZONE_USER_SIZE,
          demo_zone\<lparr>bitmap := (bitmap demo_zone)[16 := 1], af_count := 2, alloc_count := 3\<rparr>,
          demo_mem)"
  by (simp add: u_iso_alloc_bitslot_from_zone_def POINTER_FROM_BITSLOT_def demo_zone_def
      ZONE_USER_SIZE_def bm_read_def BITS_PER_QWORD_SHIFT_def BITS_PER_QWORD_def WHICH_BIT_def
      GET_BIT_def SET_BIT_def UNSET_BIT_def Let_def)


theorem alloc_bitslot_marks_in_use_witness:
  "bm_read (bitmap demo_zone) (sint (signed_drop_bit BITS_PER_QWORD_SHIFT (0 :: 64 word))) = Inr 225 \<and>
   GET_BIT 225 (WHICH_BIT 0) \<noteq> 0 \<and>
   (\<exists>r. u_iso_alloc_bitslot_from_zone demo_cfg 0 demo_zone demo_mem = Inl (Abort r)) \<and>
   bm_read (bitmap demo_zone) (sint (signed_drop_bit BITS_PER_QWORD_SHIFT (4 :: 64 word))) = Inr 225 \<and>
   GET_BIT 225 (WHICH_BIT 4) = 0 \<and> even (4 :: 64 word) \<and>
   POINTER_FROM_BITSLOT demo_zone 4 \<le> user_pages_start demo_zone + ZONE_USER_SIZE \<and>
   CANARIES demo_cfg \<and> GET_BIT 225 (WHICH_BIT 4 + 1) = 1 \<and>
   check_canary demo_cfg demo_zone demo_mem (POINTER_FROM_BITSLOT demo_zone 4) = Inr () \<and>
   (\<exists>z' m' b'.
      u_iso_alloc_bitslot_from_zone demo_cfg 4 demo_zone demo_mem =
        Inr (POINTER_FROM_BITSLOT demo_zone 4, z', m') \<and>
      bitmap z' = (bitmap demo_zone)[0 := b'] \<and>
      GET_BIT b' 4 = 1 \<and> GET_BIT b' 5 = 0 \<and>
      af_count z' = 2 \<and> alloc_count z' = 3)"
proof -
  have low0: "GET_BIT 225 (WHICH_BIT 0) \<noteq> 0" by (simp add: w0 GET_BIT_def)
  have low4: "GET_BIT 225 (WHICH_BIT 4) = 0" by (simp add: w4 GET_BIT_def)
  have high4: "GET_BIT 225 (WHICH_BIT 4 + 1) = 1" by (simp add: w4 GET_BIT_def)
  have ev: "even (4 :: 64 word)" by simp
  have rng: "POINTER_FROM_BITSLOT demo_zone 4 \<le> user_pages_start demo_zone + ZONE_USER_SIZE"
    by (simp add: demo_p4) (simp add: demo_zone_def ZONE_USER_SIZE_def)
  have can: "check_canary demo_cfg demo_zone demo_mem (POINTER_FROM_BITSLOT demo_zone 4) = Inr ()"
    by (simp add: demo_p4 demo_canary4)
  have cfg: "CANARIES demo_cfg" by (simp add: CANARIES_def demo_cfg_def)
  from alloc_bitslot_marks_in_use [OF demo_rd0, of demo_cfg demo_mem] low0
  have a: "\<exists>r. u_iso_alloc_bitslot_from_zone demo_cfg 0 demo_zone demo_mem = Inl (Abort r)"
    by blast
  from alloc_bitslot_marks_in_use [OF demo_rd4, of demo_cfg demo_mem] low4 ev rng can
  obtain z' m' b' where
    "u_iso_alloc_bitslot_from_zone demo_cfg 4 demo_zone demo_mem =
        Inr (POINTER_FROM_BITSLOT demo_zone 4, z', m')"
    "bitmap z' = (bitmap demo_zone)[nat (sint (signed_drop_bit BITS_PER_QWORD_SHIFT (4 :: 64 word))) := b']"
    "GET_BIT b' (WHICH_BIT 4) = 1" "GET_BIT b' (WHICH_BIT 4 + 1) = 0"
    "af_count z' = af_count demo_zone + 1" "alloc_count z' = alloc_count demo_zone + 1"
    by blast
  then have b: "\<exists>z' m' b'.
      u_iso_alloc_bitslot_from_zone demo_cfg 4 demo_zone demo_mem =
        Inr (POINTER_FROM_BITSLOT demo_zone 4, z', m') \<and>
      bitmap z' = (bitmap demo_zone)[0 := b'] \<and>
      GET_BIT b' 4 = 1 \<and> GET_BIT b' 5 = 0 \<and>
      af_count z' = 2 \<and> alloc_count z' = 3"
    by (intro exI [of _ z'] exI [of _ m'] exI [of _ b'])
       (simp add: w4 BITS_PER_QWORD_SHIFT_def signed_drop_bit_word_numeral demo_zone_def)
  show ?thesis
    using demo_rd0 low0 a demo_rd4 low4 ev rng cfg high4 can b by blast
qed

section \<open>Properties of the big-allocation path\<close>


lemma big_alloc_walk_first_fit:
  assumes "big_list st big as"
    and "\<forall>a\<in>set as. big_canary_ok cfg st a"
    and "find (big_fits st sz) as = Some a"
  shows "\<exists>l. big_alloc_walk cfg st sz big last_big = Some (Inr (a, l))"
  using assms
proof (induction as arbitrary: big last_big)
  case Nil
  then show ?case by simp
next
  case (Cons x xs)
  from Cons.prems(1) obtain bz where x: "big = x" "x \<noteq> 0" "big_heap st x = Some bz"
    and rest: "if big_next bz = 0 then xs = []
               else big_list st (UNMASK_BIG_ZONE_NEXT st (big_next bz)) xs"
    by (auto split: option.splits)
  from Cons.prems(2) x have can: "check_big_canary cfg st x bz = Inr ()"
    by (simp add: big_canary_ok_def)
  show ?case
  proof (cases "big_fits st sz x")
    case True
    with Cons.prems(3) have "a = x" by simp
    with True x can show ?thesis
      by (subst big_alloc_walk.simps) (simp add: big_fits_def)
  next
    case False
    with Cons.prems(3) have f: "find (big_fits st sz) xs = Some a" by simp
    then have "xs \<noteq> []" by auto
    with rest have nz: "big_next bz \<noteq> 0"
      and l: "big_list st (UNMASK_BIG_ZONE_NEXT st (big_next bz)) xs"
      by (auto split: if_splits)
    from Cons.IH [OF l _ f, of x] Cons.prems(2)
    obtain l' where "big_alloc_walk cfg st sz (UNMASK_BIG_ZONE_NEXT st (big_next bz)) x
                       = Some (Inr (a, l'))"
      by auto
    with False x can nz show ?thesis
      by (subst big_alloc_walk.simps) (auto simp: big_fits_def)
  qed
qed

lemma big_list_nonzero: "big_list st big as \<Longrightarrow> a \<in> set as \<Longrightarrow> a \<noteq> 0"
proof (induction as arbitrary: big)
  case Nil
  then show ?case by simp
next
  case (Cons x xs)
  then show ?case by (auto split: option.splits if_splits)
qed

text \<open>
  A big allocation request (\<^verbatim>\<open>_iso_big_alloc\<close>) rounds the size up to a page and
  aborts when the rounded size wraps around or exceeds \<open>BIG_SZ_MAX\<close>. Otherwise, on a
  big-zone list of entries \<open>as\<close> whose next pointers are stored masked and whose canaries
  verify, if some entry is free and at least as large as the rounded request, the first
  such entry in list order is reused: its free flag is set to false, its
  \<open>user_pages_start\<close> is returned, nothing else in the state changes, and no mapping is
  taken from the operating system.
\<close>

lemma big_alloc_reuses_first_fit:
  assumes "big_list st (big_list_start st) as"
    and "\<forall>a\<in>set as. big_canary_ok cfg st a"
  shows "(ROUND_UP_PAGE cfg sz < sz \<or> ROUND_UP_PAGE cfg sz > BIG_SZ_MAX cfg \<longrightarrow>
            u_iso_big_alloc cfg st sz = Some (Inl (Abort BigTooLarge))) \<and>
         (\<not> (ROUND_UP_PAGE cfg sz < sz \<or> ROUND_UP_PAGE cfg sz > BIG_SZ_MAX cfg) \<and>
          find (big_fits st (ROUND_UP_PAGE cfg sz)) as = Some a \<longrightarrow>
            (\<exists>bz st'. big_heap st a = Some bz \<and>
               u_iso_big_alloc cfg st sz = Some (Inr (big_user_pages_start bz, st')) \<and>
               st' = st\<lparr>big_heap := (big_heap st)(a := Some (bz\<lparr>big_free := False\<rparr>))\<rparr> \<and>
               os_mmap st' = os_mmap st))"
proof (intro conjI impI)
  assume "ROUND_UP_PAGE cfg sz < sz \<or> BIG_SZ_MAX cfg < ROUND_UP_PAGE cfg sz"
  then show "u_iso_big_alloc cfg st sz = Some (Inl (Abort BigTooLarge))"
    by (simp add: u_iso_big_alloc_def Let_def)
next
  assume h: "\<not> (ROUND_UP_PAGE cfg sz < sz \<or> BIG_SZ_MAX cfg < ROUND_UP_PAGE cfg sz) \<and>
          find (big_fits st (ROUND_UP_PAGE cfg sz)) as = Some a"
  then have f: "find (big_fits st (ROUND_UP_PAGE cfg sz)) as = Some a" by simp
  from big_alloc_walk_first_fit [OF assms(1) assms(2) f, of 0]
  obtain l where w: "big_alloc_walk cfg st (ROUND_UP_PAGE cfg sz) (big_list_start st) 0
                       = Some (Inr (a, l))" by auto
  from f have ain: "a \<in> set as" and fits: "big_fits st (ROUND_UP_PAGE cfg sz) a"
    by (auto simp: find_Some_iff)
  from fits obtain bz where bz: "big_heap st a = Some bz"
    by (auto simp: big_fits_def split: option.splits)
  from assms(2) ain bz have can: "check_big_canary cfg st a bz = Inr ()"
    by (auto simp: big_canary_ok_def)
  have "a \<noteq> 0" using big_list_nonzero [OF assms(1) ain] .
  then show "\<exists>bz st'. big_heap st a = Some bz \<and>
               u_iso_big_alloc cfg st sz = Some (Inr (big_user_pages_start bz, st')) \<and>
               st' = st\<lparr>big_heap := (big_heap st)(a := Some (bz\<lparr>big_free := False\<rparr>))\<rparr> \<and>
               os_mmap st' = os_mmap st"
    using h w bz can
    by (simp add: u_iso_big_alloc_def Let_def big_list_start_def)
qed

lemma demo_big_list:
  "big_list demo_st (big_list_start demo_st) [0x30001040, 0x30005080, 0x30009100]"
  by (simp add: big_list_start_def demo_st_def demo_big_def UNMASK_BIG_ZONE_NEXT_def)

lemma demo_big_canaries:
  "\<forall>a \<in> set [0x30001040, 0x30005080, 0x30009100]. big_canary_ok demo_cfg demo_st a"
  by (simp add: big_canary_ok_def check_big_canary_def big_canary_def demo_st_def demo_big_def)

lemma demo_round: "ROUND_UP_PAGE demo_cfg 5000 = 8192"
  by (simp add: ROUND_UP_PAGE_def demo_cfg_def)

lemma demo_find:
  "find (big_fits demo_st 8192) [0x30001040, 0x30005080, 0x30009100] = Some 0x30005080"
  by (simp add: big_fits_def demo_st_def demo_big_def)

lemma big_alloc_reuses_first_fit_demo:
  "big_list demo_st (big_list_start demo_st) [0x30001040, 0x30005080, 0x30009100] \<and>
   big_canary_ok demo_cfg demo_st 0x30001040 \<and>
   big_canary_ok demo_cfg demo_st 0x30005080 \<and>
   big_canary_ok demo_cfg demo_st 0x30009100 \<and>
   ROUND_UP_PAGE demo_cfg 0xFFFFFFFFFFFFFFFF < 0xFFFFFFFFFFFFFFFF \<and>
   u_iso_big_alloc demo_cfg demo_st 0xFFFFFFFFFFFFFFFF = Some (Inl (Abort BigTooLarge)) \<and>
   ROUND_UP_PAGE demo_cfg 5000 = 8192 \<and> 8192 \<le> BIG_SZ_MAX demo_cfg \<and>
   find (big_fits demo_st (ROUND_UP_PAGE demo_cfg 5000)) [0x30001040, 0x30005080, 0x30009100]
     = Some 0x30005080 \<and>
   (\<exists>st'. u_iso_big_alloc demo_cfg demo_st 5000 = Some (Inr (0x50001000, st')) \<and>
      os_mmap st' = os_mmap demo_st)"
proof -
  have big: "ROUND_UP_PAGE demo_cfg 0xFFFFFFFFFFFFFFFF < 0xFFFFFFFFFFFFFFFF"
    by (simp add: ROUND_UP_PAGE_def demo_cfg_def)
  have le: "8192 \<le> BIG_SZ_MAX demo_cfg" by (simp add: demo_cfg_def)
  have ok: "\<not> (ROUND_UP_PAGE demo_cfg 5000 < 5000 \<or> ROUND_UP_PAGE demo_cfg 5000 > BIG_SZ_MAX demo_cfg)"
    by (simp add: demo_round) (simp add: demo_cfg_def)
  have f: "find (big_fits demo_st (ROUND_UP_PAGE demo_cfg 5000)) [0x30001040, 0x30005080, 0x30009100]
     = Some 0x30005080"
    unfolding demo_round by (rule demo_find)
  have c: "big_canary_ok demo_cfg demo_st 0x30001040" "big_canary_ok demo_cfg demo_st 0x30005080"
    "big_canary_ok demo_cfg demo_st 0x30009100"
    using demo_big_canaries by simp_all
  note t = big_alloc_reuses_first_fit [OF demo_big_list demo_big_canaries]
  from t [of "0xFFFFFFFFFFFFFFFF"] big
  have 1: "u_iso_big_alloc demo_cfg demo_st 0xFFFFFFFFFFFFFFFF = Some (Inl (Abort BigTooLarge))"
    by blast
  from t [of 5000 "0x30005080"] ok f
  obtain bz st' where r: "big_heap demo_st 0x30005080 = Some bz"
     "u_iso_big_alloc demo_cfg demo_st 5000 = Some (Inr (big_user_pages_start bz, st'))"
     "os_mmap st' = os_mmap demo_st"
    by blast
  from r(1) have "big_user_pages_start bz = 0x50001000"
    by (auto simp: demo_st_def demo_big_def)
  with r have 2: "\<exists>st'. u_iso_big_alloc demo_cfg demo_st 5000 = Some (Inr (0x50001000, st')) \<and>
      os_mmap st' = os_mmap demo_st" by auto
  show ?thesis using demo_big_list c big 1 demo_round le f 2 by blast
qed

lemma demo_bigs_list:
  "big_list demo_bigs (big_list_start demo_bigs) [0x30001040, 0x30005080, 0x30009100]"
  by (simp add: big_list_start_def demo_bigs_def demo_st_def demo_big_def UNMASK_BIG_ZONE_NEXT_def)

lemma demo_bigs_canaries:
  "big_canary_ok demo_cfg demo_bigs 0x30001040 \<and> big_canary_ok demo_cfg demo_bigs 0x30005080 \<and>
   big_canary_ok demo_cfg demo_bigs 0x30009100"
  by (simp add: big_canary_ok_def check_big_canary_def big_canary_def demo_bigs_def demo_st_def
        demo_big_def)

lemma demo_bigs_free:
  "iso_free_big_zone demo_cfg demo_bigs 0x30005080 True =
     Some (Inr (demo_bigs\<lparr>big_heap := (\<lambda>a. None)
        (0x30001040 := Some ((demo_big 0x30001040 0x40001000 4096 True 0x30005080)
                               \<lparr>big_next := 0x30009100\<rparr>),
         0x30009100 := Some (demo_big 0x30009100 0x60001000 16384 True 0))\<rparr>))"
  apply (simp add: iso_free_big_zone_def demo_bigs_def demo_st_def Let_def UNMASK_BIG_ZONE_NEXT_def
      big_unlink_walk.simps [of demo_cfg _ "0x30005080" "0x30001040"])
  apply (simp add: demo_big_def check_big_canary_def big_canary_def CANARIES_def demo_cfg_def
      UNMASK_BIG_ZONE_NEXT_def fun_upd_twist)
  done

lemma demo_bigs_alloc:
  "result_ptr (u_iso_big_alloc demo_cfg demo_bigs 16384) = Some (Inr 0x60001000)"
proof -
  have f: "find (big_fits demo_bigs (ROUND_UP_PAGE demo_cfg 16384))
             [0x30001040, 0x30005080, 0x30009100] = Some 0x30009100"
    by (simp add: big_fits_def demo_bigs_def demo_st_def demo_big_def ROUND_UP_PAGE_def demo_cfg_def)
  have ok: "\<not> (ROUND_UP_PAGE demo_cfg 16384 < 16384 \<or>
                ROUND_UP_PAGE demo_cfg 16384 > BIG_SZ_MAX demo_cfg)"
    by (simp add: ROUND_UP_PAGE_def demo_cfg_def)
  have c: "\<forall>a \<in> set [0x30001040, 0x30005080, 0x30009100]. big_canary_ok demo_cfg demo_bigs a"
    using demo_bigs_canaries by simp
  from big_alloc_reuses_first_fit [OF demo_bigs_list c, of 16384 "0x30009100"] ok f
  obtain bz st' where "big_heap demo_bigs 0x30009100 = Some bz"
    "u_iso_big_alloc demo_cfg demo_bigs 16384 = Some (Inr (big_user_pages_start bz, st'))"
    by blast
  then show ?thesis
    by (auto simp: result_ptr_def demo_bigs_def demo_st_def demo_big_def)
qed

text \<open>
  Claim C8. The claim is that a big allocation reuses the first free entry of the
  big-zone list that is large enough. \<^verbatim>\<open>_iso_big_alloc\<close> follows the next pointers
  through \<^verbatim>\<open>UNMASK_BIG_ZONE_NEXT\<close> and stores them through \<^verbatim>\<open>MASK_BIG_ZONE_NEXT\<close>,
  but the permanent free of a big zone, \<^verbatim>\<open>iso_free_big_zone\<close>, stores the successor of
  the removed entry unmasked in its predecessor. In \<open>demo_bigs\<close> the list holds a free
  zone of 4096 bytes, a zone of 8192 bytes in use and a free zone of 16384 bytes, all
  with valid canaries, and a request of 16384 bytes is served from the third. After the
  permanent free of the second, the first entry holds the plain address \<open>0x30009100\<close>
  of the third where the list needs its masked form; the third entry is still free, large
  enough and intact, and the same request of 16384 bytes does not reuse it: the walk
  unmasks the plain address and reads a record where there is none.
\<close>

theorem big_alloc_misses_entry_after_permanent_free:
  "big_list demo_bigs (big_list_start demo_bigs) [0x30001040, 0x30005080, 0x30009100] \<and>
   big_canary_ok demo_cfg demo_bigs 0x30001040 \<and>
   big_canary_ok demo_cfg demo_bigs 0x30005080 \<and>
   big_canary_ok demo_cfg demo_bigs 0x30009100 \<and>
   result_ptr (u_iso_big_alloc demo_cfg demo_bigs 16384) = Some (Inr 0x60001000) \<and>
   iso_free_big_zone demo_cfg demo_bigs 0x30005080 True \<noteq> None \<and>
   \<not> isl (the (iso_free_big_zone demo_cfg demo_bigs 0x30005080 True)) \<and>
   map_option big_next
     (big_heap (projr (the (iso_free_big_zone demo_cfg demo_bigs 0x30005080 True))) 0x30001040)
     = Some 0x30009100 \<and>
   MASK_BIG_ZONE_NEXT demo_bigs 0x30009100 = 0x0F0F0F0F3F0F9E0F \<and>
   big_fits (projr (the (iso_free_big_zone demo_cfg demo_bigs 0x30005080 True))) 16384 0x30009100 \<and>
   big_canary_ok demo_cfg (projr (the (iso_free_big_zone demo_cfg demo_bigs 0x30005080 True)))
     0x30009100 \<and>
   ROUND_UP_PAGE demo_cfg 16384 = 16384 \<and>
   u_iso_big_alloc demo_cfg (projr (the (iso_free_big_zone demo_cfg demo_bigs 0x30005080 True)))
     16384 = Some (Inl Fault)"
  unfolding demo_bigs_free
  using demo_bigs_list demo_bigs_canaries demo_bigs_alloc
  apply (simp add: MASK_BIG_ZONE_NEXT_def)
  apply (simp add: demo_bigs_def demo_st_def big_fits_def big_canary_ok_def demo_big_def
      check_big_canary_def big_canary_def ROUND_UP_PAGE_def demo_cfg_def
      u_iso_big_alloc_def Let_def UNMASK_BIG_ZONE_NEXT_def CANARIES_def
      big_alloc_walk.simps [of _ _ 16384 "0x30001040" 0]
      big_alloc_walk.simps [of _ _ 16384 "0x0F0F0F0F3F0F9E0F" "0x30001040"])
  done

section \<open>Properties of free\<close>


lemma insert_free_bit_slot_fields:
  assumes "insert_free_bit_slot cfg z s = Inr z1"
  shows "bitmap z1 = bitmap z" "user_pages_start z1 = user_pages_start z"
    "pointer_mask z1 = pointer_mask z" "chunk_size z1 = chunk_size z"
    "bitmap_size z1 = bitmap_size z" "af_count z1 = af_count z"
    "alloc_count z1 = alloc_count z" "canary_secret z1 = canary_secret z"
    "index z1 = index z" "internal z1 = internal z"
  using assms by (auto simp: insert_free_bit_slot_def split: if_splits)

lemma iso_free_chunk_from_zone_checks:
  assumes "iso_free_chunk_from_zone cfg z m t p permanent = Inr r"
  shows "IS_ALIGNED p = 0"
    and "(p - UNMASK_USER_PTR z) AND (chunk_size z - 1) = 0"
    and "chunk_size z \<noteq> 0"
    and "free_word_index z p \<le> sint (drop_bit 3 (bitmap_size z))"
    and "\<exists>b. bm_read (bitmap z) (free_word_index z p) = Inr b \<and>
             GET_BIT b (WHICH_BIT (free_bit_slot z p)) \<noteq> 0 \<and>
             WHICH_BIT (free_bit_slot z p) + 1 < 64"
proof -
  note d = iso_free_chunk_from_zone_def Let_def free_word_index_def free_bit_slot_def
    BITS_PER_QWORD_def
  show 1: "IS_ALIGNED p = 0"
    using assms by (rule_tac ccontr) (simp add: d)
  show 2: "(p - UNMASK_USER_PTR z) AND (chunk_size z - 1) = 0"
    using assms 1 by (rule_tac ccontr) (simp add: d)
  show 3: "chunk_size z \<noteq> 0"
    using assms 1 2 by (rule_tac ccontr) (simp add: d)
  show 4: "free_word_index z p \<le> sint (drop_bit 3 (bitmap_size z))"
    using assms 1 2 3 by (rule_tac ccontr) (simp add: d)
  obtain b where 5: "bm_read (bitmap z) (free_word_index z p) = Inr b"
    using assms 1 2 3 4 by (cases "bm_read (bitmap z) (free_word_index z p)") (simp_all add: d)
  have 6: "GET_BIT b (WHICH_BIT (free_bit_slot z p)) \<noteq> 0"
    using assms 1 2 3 4 5 by (rule_tac ccontr) (simp add: d)
  have 7: "WHICH_BIT (free_bit_slot z p) + 1 < 64"
    using assms 1 2 3 4 5 6 by (rule_tac ccontr) (simp add: d)
  from 5 6 7 show "\<exists>b. bm_read (bitmap z) (free_word_index z p) = Inr b \<and>
             GET_BIT b (WHICH_BIT (free_bit_slot z p)) \<noteq> 0 \<and>
             WHICH_BIT (free_bit_slot z p) + 1 < 64" by blast
qed

lemma iso_free_chunk_from_zone_Inr:
  assumes "iso_free_chunk_from_zone cfg z m tc p permanent = Inr (z', m', tc')"
  shows "IS_ALIGNED p = 0"
    and "(p - UNMASK_USER_PTR z) AND (chunk_size z - 1) = 0"
    and "chunk_size z \<noteq> 0"
    and "free_word_index z p \<le> sint (drop_bit 3 (bitmap_size z))"
    and "\<exists>b. bm_read (bitmap z) (free_word_index z p) = Inr b \<and>
             GET_BIT b (WHICH_BIT (free_bit_slot z p)) \<noteq> 0 \<and>
             WHICH_BIT (free_bit_slot z p) + 1 < 64 \<and>
             bitmap z' = (bitmap z)[nat (free_word_index z p) :=
               (if permanent then SET_BIT b (WHICH_BIT (free_bit_slot z p) + 1)
                else UNSET_BIT (SET_BIT b (WHICH_BIT (free_bit_slot z p) + 1))
                       (WHICH_BIT (free_bit_slot z p)))]"
    and "user_pages_start z' = user_pages_start z"
    and "pointer_mask z' = pointer_mask z"
    and "chunk_size z' = chunk_size z"
    and "bitmap_size z' = bitmap_size z"
    and "af_count z' = af_count z - 1"
    and "alloc_count z' = alloc_count z"
    and "internal z' = internal z"
    and "index z' = index z"
proof -
  note c = iso_free_chunk_from_zone_checks [OF assms]
  show "IS_ALIGNED p = 0" "(p - UNMASK_USER_PTR z) AND (chunk_size z - 1) = 0"
    "chunk_size z \<noteq> 0" "free_word_index z p \<le> sint (drop_bit 3 (bitmap_size z))"
    by (rule c)+
  from c(5) obtain b where b: "bm_read (bitmap z) (free_word_index z p) = Inr b"
    "GET_BIT b (WHICH_BIT (free_bit_slot z p)) \<noteq> 0" "WHICH_BIT (free_bit_slot z p) + 1 < 64"
    by blast
  define k where "k = WHICH_BIT (free_bit_slot z p)"
  define i where "i = free_word_index z p"
  define b2 where "b2 = (if permanent then SET_BIT b (k + 1) else UNSET_BIT (SET_BIT b (k + 1)) k)"
  have "\<exists>z2. z' = z2\<lparr>bitmap := (bitmap z2)[nat i := b2], af_count := af_count z2 - 1\<rparr> \<and>
          bitmap z2 = bitmap z \<and> user_pages_start z2 = user_pages_start z \<and>
          pointer_mask z2 = pointer_mask z \<and> chunk_size z2 = chunk_size z \<and>
          bitmap_size z2 = bitmap_size z \<and> af_count z2 = af_count z \<and>
          alloc_count z2 = alloc_count z \<and> internal z2 = internal z \<and> index z2 = index z"
  proof (cases permanent)
    case True
    with assms c(1-4) b show ?thesis
      unfolding iso_free_chunk_from_zone_def Let_def BITS_PER_QWORD_def
        free_word_index_def [symmetric] free_bit_slot_def [symmetric]
      by (auto simp: k_def i_def b2_def split: if_splits sum.splits)
  next
    case False
    with assms c(1-4) b obtain z1 where z1: "insert_free_bit_slot cfg z (free_bit_slot z p) = Inr z1"
      unfolding iso_free_chunk_from_zone_def Let_def BITS_PER_QWORD_def
        free_word_index_def [symmetric] free_bit_slot_def [symmetric]
      by (cases "insert_free_bit_slot cfg z (free_bit_slot z p)") auto
    with False assms c(1-4) b
    have "z' = z1\<lparr>is_full := False, bitmap := (bitmap z1)[nat i := b2], af_count := af_count z1 - 1\<rparr>"
      unfolding iso_free_chunk_from_zone_def Let_def BITS_PER_QWORD_def
        free_word_index_def [symmetric] free_bit_slot_def [symmetric]
      by (auto simp: k_def i_def b2_def split: if_splits sum.splits)
    with insert_free_bit_slot_fields [OF z1] show ?thesis
      by (intro exI [of _ "z1\<lparr>is_full := False\<rparr>"]) simp
  qed
  then obtain z2 where z2: "z' = z2\<lparr>bitmap := (bitmap z2)[nat i := b2], af_count := af_count z2 - 1\<rparr>"
    "bitmap z2 = bitmap z" "user_pages_start z2 = user_pages_start z"
    "pointer_mask z2 = pointer_mask z" "chunk_size z2 = chunk_size z"
    "bitmap_size z2 = bitmap_size z" "af_count z2 = af_count z" "alloc_count z2 = alloc_count z"
    "internal z2 = internal z" "index z2 = index z"
    by blast
  from z2 show "user_pages_start z' = user_pages_start z" "pointer_mask z' = pointer_mask z"
    "chunk_size z' = chunk_size z" "bitmap_size z' = bitmap_size z"
    "af_count z' = af_count z - 1" "alloc_count z' = alloc_count z"
    "internal z' = internal z" "index z' = index z"
    by simp_all
  from z2 b show "\<exists>b. bm_read (bitmap z) (free_word_index z p) = Inr b \<and>
             GET_BIT b (WHICH_BIT (free_bit_slot z p)) \<noteq> 0 \<and>
             WHICH_BIT (free_bit_slot z p) + 1 < 64 \<and>
             bitmap z' = (bitmap z)[nat (free_word_index z p) :=
               (if permanent then SET_BIT b (WHICH_BIT (free_bit_slot z p) + 1)
                else UNSET_BIT (SET_BIT b (WHICH_BIT (free_bit_slot z p) + 1))
                       (WHICH_BIT (free_bit_slot z p)))]"
    by (intro exI [of _ b]) (simp add: b2_def k_def i_def)
qed






lemma thenE_InrD: "thenE x f = Inr y \<Longrightarrow> \<exists>a. x = Inr a \<and> f a = Inr y"
  by (cases x) (simp_all add: thenE_def)

lemma thenP_InrD: "thenP x f = Some (Inr y) \<Longrightarrow> \<exists>a. x = Some (Inr a) \<and> f a = Some (Inr y)"
  by (cases x) (auto simp: thenP_def split: sum.splits)











lemma free_keeps:
  assumes "iso_find_zone_range cfg st p = Inr (Some zi)"
    and "iso_free_chunk_from_zone cfg (zones st zi) (umem st) (thread st) p permanent
           = Inr (z1, m1, t1)"
    and "\<not> u_is_zone_retired z1"
  shows "u_iso_free_internal_unlocked cfg st p permanent None
           = Some (Inr (st\<lparr>zones := (zones st)(zi := z1), umem := m1, thread := t1\<rparr>))"
  using assms by (simp add: u_iso_free_internal_unlocked_def Let_def thenP_def)










lemmas demo_eval =
  iso_free_chunk_from_zone_def MASK_ZONE_PTRS_def UNMASK_USER_PTR_def IS_ALIGNED_def
  ALIGNMENT_def demo_zone_def demo_cfg_def demo_tc_def Let_def bm_read_def
  BITS_PER_CHUNK_SHIFT_def BITS_PER_QWORD_SHIFT_def BITS_PER_QWORD_def WHICH_BIT_def
  SET_BIT_def UNSET_BIT_def GET_BIT_def insert_free_bit_slot_def BIT_SLOT_CACHE_SZ_def
  CANARIES_def SANITIZE_def GET_CHUNK_COUNT_def ZONE_USER_SIZE_def check_neighbour_def
  populate_zone_cache_def ZONE_CACHE_SZ_def write_canary_def canary_value_def
  signed_drop_bit_word_numeral

lemma demo_free_chunk0:
  "\<not> isl (iso_free_chunk_from_zone demo_cfg (MASK_ZONE_PTRS demo_zone) demo_mem demo_tc
             0x10000000 False)"
  by (simp add: demo_eval)





lemma demo_st_range: "iso_find_zone_range demo_cfg demo_st 0x10000000 = Inr (Some 1)"
  by (simp add: iso_find_zone_range_def Let_def in_user_range_def MAX_ZONES_def
        demo_st_def demo_cfg_def demo_zone_def MASK_ZONE_PTRS_def
        UNMASK_USER_PTR_def ZONE_USER_SIZE_def)






section \<open>The count of chunks in use\<close>

lemma filter_upt_change:
  assumes "s < n" and "\<forall>j. j \<noteq> s \<longrightarrow> P' j = P j"
  shows "length (filter P' [0..<n]) + (if P s then 1 else 0)
           = length (filter P [0..<n]) + (if P' s then 1 else 0)"
  using assms
proof (induction n)
  case 0
  then show ?case by simp
next
  case (Suc n)
  show ?case
  proof (cases "s = n")
    case True
    have "filter P' [0..<n] = filter P [0..<n]"
      using Suc.prems(2) True by (intro filter_cong) auto
    with True show ?thesis by simp
  next
    case False
    with Suc.prems have "s < n" by simp
    moreover from False Suc.prems(2) have "P' n = P n" by auto
    ultimately show ?thesis using Suc.IH [OF \<open>s < n\<close> Suc.prems(2)] by auto
  qed
qed

lemma chunk_count_le: "unat (GET_CHUNK_COUNT z) \<le> 4194304"
proof -
  have "unat (GET_CHUNK_COUNT z) = 4194304 div unat (chunk_size z)"
    by (simp add: GET_CHUNK_COUNT_def ZONE_USER_SIZE_def unat_div)
  also have "\<dots> \<le> 4194304" by (rule div_le_dividend)
  finally show ?thesis .
qed

lemma in_use_count_le: "in_use_count z \<le> unat (GET_CHUNK_COUNT z)"
proof -
  have "in_use_count z \<le> length [0 ..< unat (GET_CHUNK_COUNT z)]"
    unfolding in_use_count_def by (rule length_filter_le)
  then show ?thesis by (simp only: length_upt diff_zero)
qed

lemma sint_small:
  assumes "unat (w :: 64 word) < 2 ^ 63"
  shows "sint w = int (unat w)"
proof -
  have "int (unat w) < int (2 ^ 63)" using assms by (simp only: of_nat_less_iff)
  moreover have "int (2 ^ 63) = (2 ^ 63 :: int)" by simp
  ultimately have "int (unat w) < 2 ^ 63" by (simp only:)
  then have lt: "uint w < 2 ^ 63" by (simp only: uint_nat)
  have "- (2 ^ 63) \<le> uint w" by (rule order_trans [of _ 0]) simp_all
  from this lt have "signed_take_bit 63 (uint w) = uint w"
    by (rule signed_take_bit_int_eq_self)
  then have "sint w = uint w" by (simp add: sint_uint)
  then show ?thesis by (simp only: uint_nat)
qed

lemma unat_slot:
  assumes "unat c < 2 ^ 62"
  shows "unat (push_bit 1 c :: 64 word) = 2 * unat c"
proof -
  from assms have "unat c * unat (2 :: 64 word) < 2 ^ LENGTH(64)" by simp
  then have "unat (c * 2) = unat c * unat (2 :: 64 word)"
    by (simp only: unat_mult_lem)
  then show ?thesis by (simp add: push_bit_eq_mult)
qed

lemma slot_word_index:
  assumes "unat c < 2 ^ 62"
  shows "sint (signed_drop_bit 6 (push_bit 1 c :: 64 word)) = int (unat c div 32)"
proof -
  from assms have u: "unat (push_bit 1 c :: 64 word) = 2 * unat c" by (rule unat_slot)
  with assms have "unat (push_bit 1 c :: 64 word) < 2 ^ 63" by simp
  then have "sint (push_bit 1 c :: 64 word) = int (unat (push_bit 1 c :: 64 word))"
    by (rule sint_small)
  with u have "sint (push_bit 1 c :: 64 word) = 2 * int (unat c)" by simp
  then have "sint (signed_drop_bit 6 (push_bit 1 c :: 64 word)) = (2 * int (unat c)) div 64"
    by (simp only: sint_signed_drop_bit_eq drop_bit_eq_div) simp
  also have "\<dots> = int (unat c div 32)" by (simp add: zdiv_int)
  finally show ?thesis .
qed

lemma unat_and_63: "unat (w AND (63 :: 64 word)) = unat w mod 64"
proof -
  have "(63 :: 64 word) = mask 6" by (simp add: mask_eq_exp_minus_1)
  then have "w AND 63 = take_bit 6 w" by (simp only: take_bit_eq_mask)
  then have "unat (w AND 63) = take_bit 6 (unat w)" by (simp only: unsigned_take_bit_eq)
  then show ?thesis by (simp add: take_bit_eq_mod)
qed

text \<open>
  The word and the bits of the slot of chunk \<open>c\<close> of a zone, as the allocation and the
  free compute them from the bit-slot \<open>2 * c\<close>.
\<close>

lemma chunk_slot:
  assumes "c < GET_CHUNK_COUNT z"
  shows "sint (signed_drop_bit BITS_PER_QWORD_SHIFT (push_bit BITS_PER_CHUNK_SHIFT c))
           = int (unat c div 32)"
    and "WHICH_BIT (push_bit BITS_PER_CHUNK_SHIFT c) = 2 * (unat c mod 32)"
    and "unat c < unat (GET_CHUNK_COUNT z)"
proof -
  from assms show lt: "unat c < unat (GET_CHUNK_COUNT z)" by (simp only: word_less_nat_alt)
  from lt chunk_count_le [of z] have "unat c < 4194304" by (rule less_le_trans)
  moreover have "(4194304 :: nat) < 2 ^ 62" by simp
  ultimately have s: "unat c < 2 ^ 62" by (rule less_trans)
  show "sint (signed_drop_bit BITS_PER_QWORD_SHIFT (push_bit BITS_PER_CHUNK_SHIFT c))
          = int (unat c div 32)"
    by (simp only: BITS_PER_QWORD_SHIFT_def BITS_PER_CHUNK_SHIFT_def slot_word_index [OF s])
  have e: "(2 * unat c) mod 64 = 2 * (unat c mod 32)" by (simp add: mult_mod_right)
  show "WHICH_BIT (push_bit BITS_PER_CHUNK_SHIFT c) = 2 * (unat c mod 32)"
    by (simp only: WHICH_BIT_def BITS_PER_CHUNK_SHIFT_def unat_and_63 unat_slot [OF s] e)
qed

text \<open>
  A write of the word \<open>i\<close> that changes the two bits of slot \<open>q\<close> of that word only
  changes the state of chunk \<open>32 * i + q\<close> only.
\<close>

lemma slot_in_use_update:
  assumes "i < length bm" and "q < 32"
    and "\<forall>j. j \<noteq> 2 * q \<and> j \<noteq> 2 * q + 1 \<longrightarrow> bit b' j = bit (bm ! i) j"
  shows "\<forall>k. k \<noteq> 32 * i + q \<longrightarrow> slot_in_use (bm[i := b']) k = slot_in_use bm k"
    and "slot_in_use (bm[i := b']) (32 * i + q) = (bit b' (2 * q) \<and> \<not> bit b' (2 * q + 1))"
    and "slot_in_use bm (32 * i + q) = (bit (bm ! i) (2 * q) \<and> \<not> bit (bm ! i) (2 * q + 1))"
proof -
  from assms(2) have dm: "(32 * i + q) div 32 = i" "(32 * i + q) mod 32 = q" by simp_all
  from dm assms(1)
  show "slot_in_use (bm[i := b']) (32 * i + q) = (bit b' (2 * q) \<and> \<not> bit b' (2 * q + 1))"
    "slot_in_use bm (32 * i + q) = (bit (bm ! i) (2 * q) \<and> \<not> bit (bm ! i) (2 * q + 1))"
    by (simp_all add: slot_in_use_def)
  show "\<forall>k. k \<noteq> 32 * i + q \<longrightarrow> slot_in_use (bm[i := b']) k = slot_in_use bm k"
  proof (intro allI impI)
    fix k assume k: "k \<noteq> 32 * i + q"
    show "slot_in_use (bm[i := b']) k = slot_in_use bm k"
    proof (cases "k div 32 = i")
      case False
      then show ?thesis by (simp add: slot_in_use_def)
    next
      case True
      have "k = 32 * (k div 32) + k mod 32" by simp
      with True k have "k mod 32 \<noteq> q" by metis
      then have "2 * (k mod 32) \<noteq> 2 * q" "2 * (k mod 32) \<noteq> 2 * q + 1"
        "2 * (k mod 32) + 1 \<noteq> 2 * q" "2 * (k mod 32) + 1 \<noteq> 2 * q + 1"
        by arith+
      with assms(1,3) True show ?thesis by (simp add: slot_in_use_def)
    qed
  qed
qed

lemma in_use_count_change:
  assumes "bitmap z' = (bitmap z)[i := b']" and "chunk_size z' = chunk_size z"
    and "i < length (bitmap z)" and "q < 32" and "32 * i + q < unat (GET_CHUNK_COUNT z)"
    and "\<forall>j. j \<noteq> 2 * q \<and> j \<noteq> 2 * q + 1 \<longrightarrow> bit b' j = bit (bitmap z ! i) j"
  shows "in_use_count z' +
           (if bit (bitmap z ! i) (2 * q) \<and> \<not> bit (bitmap z ! i) (2 * q + 1) then 1 else 0)
         = in_use_count z + (if bit b' (2 * q) \<and> \<not> bit b' (2 * q + 1) then 1 else 0)"
proof -
  note u = slot_in_use_update [OF assms(3,4,6)]
  from assms(2) have c: "GET_CHUNK_COUNT z' = GET_CHUNK_COUNT z" by (simp add: GET_CHUNK_COUNT_def)
  from filter_upt_change [OF assms(5), of "slot_in_use (bitmap z')" "slot_in_use (bitmap z)"]
    u(1) assms(1)
  have "length (filter (slot_in_use (bitmap z')) [0..<unat (GET_CHUNK_COUNT z)]) +
          (if slot_in_use (bitmap z) (32 * i + q) then 1 else 0)
        = length (filter (slot_in_use (bitmap z)) [0..<unat (GET_CHUNK_COUNT z)]) +
          (if slot_in_use (bitmap z') (32 * i + q) then 1 else 0)"
    by simp
  with u(2,3) assms(1) c show ?thesis by (simp add: in_use_count_def)
qed

lemma unat_suc64: "unat (a :: 64 word) < 2 ^ 63 \<Longrightarrow> unat (a + 1) = unat a + 1"
  by (simp add: unat_word_ariths)

lemma unat_pred64: "0 < unat (a :: 64 word) \<Longrightarrow> unat (a - 1) = unat a - 1"
  by (metis unat_minus_one unat_eq_zero less_numeral_extra(3))

lemma alloc_bitslot_Inr:
  assumes "u_iso_alloc_bitslot_from_zone cfg bitslot z m = Inr (p, z', m')"
  shows "\<exists>b. bm_read (bitmap z) (sint (signed_drop_bit BITS_PER_QWORD_SHIFT bitslot)) = Inr b \<and>
           GET_BIT b (WHICH_BIT bitslot) = 0 \<and>
           bitmap z' = (bitmap z)[nat (sint (signed_drop_bit BITS_PER_QWORD_SHIFT bitslot)) :=
                          UNSET_BIT (SET_BIT b (WHICH_BIT bitslot)) (WHICH_BIT bitslot + 1)]"
    and "WHICH_BIT bitslot + 1 < 64"
    and "\<not> POINTER_FROM_BITSLOT z bitslot > user_pages_start z + ZONE_USER_SIZE"
    and "p = POINTER_FROM_BITSLOT z bitslot"
    and "af_count z' = af_count z + 1"
    and "alloc_count z' = alloc_count z + 1"
    and "chunk_size z' = chunk_size z"
proof -
  note d = u_iso_alloc_bitslot_from_zone_def Let_def BITS_PER_QWORD_def
  define i where "i = sint (signed_drop_bit BITS_PER_QWORD_SHIFT bitslot)"
  obtain b where 1: "bm_read (bitmap z) i = Inr b"
    using assms by (cases "bm_read (bitmap z) i") (simp_all add: d i_def)
  show 2: "\<not> POINTER_FROM_BITSLOT z bitslot > user_pages_start z + ZONE_USER_SIZE"
    using assms 1 by (rule_tac notI) (simp add: d i_def)
  have 3: "GET_BIT b (WHICH_BIT bitslot) = 0"
    using assms 1 2 by (rule_tac ccontr) (simp add: d i_def)
  show 4: "WHICH_BIT bitslot + 1 < 64"
    using assms 1 2 3 by (rule_tac ccontr) (simp add: d i_def)
  from assms 1 2 3 4
  have "\<exists>m1. Inr (POINTER_FROM_BITSLOT z bitslot,
            z\<lparr>bitmap := (bitmap z)[nat i :=
                   UNSET_BIT (SET_BIT b (WHICH_BIT bitslot)) (WHICH_BIT bitslot + 1)],
              af_count := af_count z + 1, alloc_count := alloc_count z + 1\<rparr>, m1)
          = (Inr (p, z', m') :: error + 64 word \<times> zone \<times> mem)"
    by (simp add: d i_def [symmetric] split: if_splits sum.splits)
  then have 5: "p = POINTER_FROM_BITSLOT z bitslot"
    "z' = z\<lparr>bitmap := (bitmap z)[nat i :=
                   UNSET_BIT (SET_BIT b (WHICH_BIT bitslot)) (WHICH_BIT bitslot + 1)],
              af_count := af_count z + 1, alloc_count := alloc_count z + 1\<rparr>"
    by auto
  from 5 show "p = POINTER_FROM_BITSLOT z bitslot" "af_count z' = af_count z + 1"
    "alloc_count z' = alloc_count z + 1" "chunk_size z' = chunk_size z" by simp_all
  from 1 3 5 show "\<exists>b. bm_read (bitmap z) (sint (signed_drop_bit BITS_PER_QWORD_SHIFT bitslot)) = Inr b \<and>
           GET_BIT b (WHICH_BIT bitslot) = 0 \<and>
           bitmap z' = (bitmap z)[nat (sint (signed_drop_bit BITS_PER_QWORD_SHIFT bitslot)) :=
                          UNSET_BIT (SET_BIT b (WHICH_BIT bitslot)) (WHICH_BIT bitslot + 1)]"
    by (intro exI [of _ b]) (simp add: i_def)
qed

lemma alloc_preserves_count:
  assumes inv: "unat (af_count z) = in_use_count z"
    and c: "c < GET_CHUNK_COUNT z"
    and r: "u_iso_alloc_bitslot_from_zone cfg (push_bit BITS_PER_CHUNK_SHIFT c) z m
              = Inr (p, z', m')"
  shows "unat (af_count z') = in_use_count z'"
proof -
  define i where "i = unat c div 32"
  define q where "q = unat c mod 32"
  note s = chunk_slot [OF c]
  note f = alloc_bitslot_Inr [OF r]
  from f(1) s(1,2) obtain b where rd: "bm_read (bitmap z) (int i) = Inr b"
    and low: "\<not> bit b (2 * q)"
    and bm': "bitmap z' = (bitmap z)[i := UNSET_BIT (SET_BIT b (2 * q)) (2 * q + 1)]"
    by (auto simp: i_def q_def)
  define b' where "b' = UNSET_BIT (SET_BIT b (2 * q)) (2 * q + 1)"
  from rd have rng: "i < length (bitmap z)" and bi: "bitmap z ! i = b"
    by (auto simp: bm_read_def split: if_splits)
  have q: "q < 32" by (simp add: q_def)
  have k: "32 * i + q < unat (GET_CHUNK_COUNT z)" using s(3) by (simp add: i_def q_def)
  have bits: "bit b' j \<longleftrightarrow> (j = 2 * q \<or> (j \<noteq> 2 * q + 1 \<and> bit b j))" for j
    using q by (auto simp: b'_def bit_SET_BIT bit_UNSET_BIT)
  from in_use_count_change [OF bm' [folded b'_def] f(7) rng q k] low bi
  have cnt: "in_use_count z' = in_use_count z + 1" by (simp add: bits)
  from in_use_count_le [of z] chunk_count_le [of z]
  have "unat (af_count z) < 2 ^ 63" by (simp add: inv)
  then have "unat (af_count z + 1) = unat (af_count z) + 1" by (rule unat_suc64)
  with cnt inv f(5) show ?thesis by simp
qed

lemma free_preserves_count:
  assumes inv: "unat (af_count z) = in_use_count z"
    and r: "iso_free_chunk_from_zone cfg z m t p permanent = Inr (z', m', t')"
    and c: "(p - UNMASK_USER_PTR z) div chunk_size z < GET_CHUNK_COUNT z"
    and rd: "bm_read (bitmap z) (free_word_index z p) = Inr b"
    and high: "GET_BIT b (WHICH_BIT (free_bit_slot z p) + 1) = 0"
  shows "unat (af_count z') = in_use_count z'"
proof -
  define i where "i = unat ((p - UNMASK_USER_PTR z) div chunk_size z) div 32"
  define q where "q = unat ((p - UNMASK_USER_PTR z) div chunk_size z) mod 32"
  note s = chunk_slot [OF c]
  from s(1,2) have wi: "free_word_index z p = int i" and wb: "WHICH_BIT (free_bit_slot z p) = 2 * q"
    by (simp_all add: free_word_index_def free_bit_slot_def i_def q_def)
  define b' where "b' = (if permanent then SET_BIT b (2 * q + 1)
                         else UNSET_BIT (SET_BIT b (2 * q + 1)) (2 * q))"
  note f = iso_free_chunk_from_zone_Inr [OF r]
  from f(5) rd wi wb have low: "bit b (2 * q)" and bm': "bitmap z' = (bitmap z)[i := b']"
    by (auto simp: b'_def)
  from high wb have nhigh: "\<not> bit b (2 * q + 1)" by simp
  from rd wi have rng: "i < length (bitmap z)" and bi: "bitmap z ! i = b"
    by (auto simp: bm_read_def split: if_splits)
  have q: "q < 32" by (simp add: q_def)
  have k: "32 * i + q < unat (GET_CHUNK_COUNT z)" using s(3) by (simp add: i_def q_def)
  have bits: "\<forall>j. j \<noteq> 2 * q \<and> j \<noteq> 2 * q + 1 \<longrightarrow> bit b' j = bit (bitmap z ! i) j"
    and hi': "bit b' (2 * q + 1)"
    using q bi by (auto simp: b'_def bit_SET_BIT bit_UNSET_BIT)
  from in_use_count_change [OF bm' f(8) rng q k bits] low nhigh hi' bi
  have cnt: "in_use_count z' + 1 = in_use_count z" by simp
  then have "0 < unat (af_count z)" by (simp add: inv)
  then have "unat (af_count z - 1) = unat (af_count z) - 1" by (rule unat_pred64)
  with cnt inv f(10) show ?thesis by simp
qed

lemma canary_slots:
  assumes "i < length bm" and "\<not> bit (bm ! i) 0"
  shows "slot_in_use (bm[i := SET_BIT (SET_BIT (bm ! i) 0) 1]) k = slot_in_use bm k"
proof -
  define b' where "b' = SET_BIT (SET_BIT (bm ! i) 0) 1"
  have bits: "bit b' j \<longleftrightarrow> (bit (bm ! i) j \<or> j = 0 \<or> j = 1)" for j
    by (auto simp: b'_def bit_SET_BIT)
  have "\<forall>j. j \<noteq> 2 * 0 \<and> j \<noteq> 2 * 0 + 1 \<longrightarrow> bit b' j = bit (bm ! i) j"
    by (simp add: bits)
  note u = slot_in_use_update [OF assms(1) _ this]
  have "slot_in_use (bm[i := b']) k = slot_in_use bm k"
  proof (cases "k = 32 * i + 0")
    case False
    with u(1) show ?thesis by simp
  next
    case True
    with u(2,3) assms(2) show ?thesis by (simp add: bits)
  qed
  then show ?thesis by (simp only: b'_def)
qed

lemma canary_loop_count:
  "canary_loop cfg mx n z m g = Inr (z', m', g')
     \<Longrightarrow> in_use_count z' = in_use_count z \<and> af_count z' = af_count z"
proof (induction n arbitrary: z m g)
  case 0
  then show ?case by simp
next
  case (Suc n)
  obtain r g1 where rg: "rand_uint64 g = (r, g1)" by (cases "rand_uint64 g") auto
  define i where "i = canary_bm_idx cfg r mx"
  from Suc.prems rg have mx: "mx \<noteq> 0" by (auto split: if_splits)
  from Suc.prems rg mx obtain b where rd: "bm_read (bitmap z) (sint i) = Inr b"
    by (cases "bm_read (bitmap z) (sint i)") (auto simp: Let_def i_def)
  show ?case
  proof (cases "GET_BIT b 0 \<noteq> 0")
    case True
    with Suc.prems rg mx rd have "canary_loop cfg mx n z m g1 = Inr (z', m', g')"
      by (simp add: Let_def i_def)
    from Suc.IH [OF this] show ?thesis .
  next
    case False
    define z1 where "z1 = z\<lparr>bitmap := (bitmap z)[nat (sint i) := SET_BIT (SET_BIT b 0) 1]\<rparr>"
    from False Suc.prems rg mx rd obtain m1 where
      "canary_loop cfg mx n z1 m1 g1 = Inr (z', m', g')"
      by (simp add: Let_def i_def z1_def)
    from Suc.IH [OF this]
    have ih: "in_use_count z' = in_use_count z1" "af_count z' = af_count z1" by simp_all
    from rd have rng: "nat (sint i) < length (bitmap z)" and bi: "bitmap z ! nat (sint i) = b"
      by (auto simp: bm_read_def split: if_splits)
    from False bi have "\<not> bit (bitmap z ! nat (sint i)) 0" by simp
    from canary_slots [OF rng this] bi
    have "slot_in_use (bitmap z1) = slot_in_use (bitmap z)"
      by (intro ext) (simp add: z1_def)
    then have "in_use_count z1 = in_use_count z"
      by (simp add: in_use_count_def GET_CHUNK_COUNT_def z1_def)
    with ih show ?thesis by (simp add: z1_def)
  qed
qed

lemma canary_preserves_count:
  assumes "unat (af_count z) = in_use_count z"
    and "create_canary_chunks cfg z m g = Inr (z', m', g')"
  shows "unat (af_count z') = in_use_count z'"
proof (cases "\<not> CANARIES cfg \<or> chunk_size z > MAX_DEFAULT_ZONE_SZ")
  case True
  with assms show ?thesis by (auto simp: create_canary_chunks_def split: if_splits)
next
  case False
  with assms(2) have "canary_loop cfg (GET_MAX_BITMASK_INDEX z - 1)
             (unat (GET_CHUNK_COUNT z div CANARY_COUNT_DIV)) z m g = Inr (z', m', g')"
    by (auto simp: create_canary_chunks_def split: if_splits)
  from canary_loop_count [OF this] assms(1) show ?thesis by simp
qed

text \<open>
  The chunks of the first \<open>w\<close> words of a bitmap, counted word by word.
\<close>

lemma slots_of_word:
  assumes "w < length bm"
  shows "length (filter (slot_in_use bm) [32 * w ..< 32 * w + 32]) = word_in_use (bm ! w)"
proof -
  have "[32 * w ..< 32 * w + 32] = map (\<lambda>j. j + 32 * w) [0..<32]"
    by (simp only: map_add_upt) (simp add: add.commute)
  then have "length (filter (slot_in_use bm) [32 * w ..< 32 * w + 32])
               = length (filter (slot_in_use bm \<circ> (\<lambda>j. j + 32 * w)) [0..<32])"
    by (simp only: filter_map length_map)
  also have "filter (slot_in_use bm \<circ> (\<lambda>j. j + 32 * w)) [0..<32]
               = filter (\<lambda>j. bit (bm ! w) (2 * j) \<and> \<not> bit (bm ! w) (2 * j + 1)) [0..<32]"
    using assms by (intro filter_cong refl) (simp add: slot_in_use_def)
  finally show ?thesis by (simp only: word_in_use_def)
qed

lemma slots_of_words:
  "w \<le> length bm \<Longrightarrow>
     length (filter (slot_in_use bm) [0 ..< 32 * w]) = sum_list (map word_in_use (take w bm))"
proof (induction w)
  case 0
  then show ?case by simp
next
  case (Suc w)
  then have w: "w < length bm" by simp
  have e: "32 * Suc w = 32 * w + 32" by simp
  have "[0 ..< 32 * w + 32] = [0 ..< 32 * w] @ [32 * w ..< 32 * w + 32]"
    by (rule upt_add_eq_append) simp
  then have "length (filter (slot_in_use bm) [0 ..< 32 * Suc w])
               = length (filter (slot_in_use bm) [0 ..< 32 * w])
                 + length (filter (slot_in_use bm) [32 * w ..< 32 * w + 32])"
    by (simp only: e filter_append length_append)
  also have "\<dots> = sum_list (map word_in_use (take w bm)) + word_in_use (bm ! w)"
    using Suc.IH w slots_of_word [OF w] by simp
  also have "\<dots> = sum_list (map word_in_use (take (Suc w) bm))"
    using w by (simp add: take_Suc_conv_app_nth)
  finally show ?case .
qed

lemma sum_list_map_update:
  "i < length xs \<Longrightarrow>
     sum_list (map f (xs[i := v])) + f (xs ! i) = sum_list (map f xs) + (f v :: nat)"
proof (induction xs arbitrary: i)
  case Nil
  then show ?case by simp
next
  case (Cons x xs)
  then show ?case by (cases i) auto
qed

lemma word_in_use_0: "word_in_use 0 = 0"
  by (simp add: word_in_use_def)

lemma in_use_count_fresh: "sum_list (map word_in_use (replicate n 0)) = 0"
  by (induction n) (simp_all add: word_in_use_0)

lemma in_use_count_single:
  "i < n \<Longrightarrow> sum_list (map word_in_use ((replicate n 0)[i := w])) = word_in_use w"
  using sum_list_map_update [of i "replicate n 0" word_in_use w]
  by (simp add: in_use_count_fresh word_in_use_0)

text \<open>
  Claim C3, amended. In a zone where the number of chunks whose bit-slot is in the
  in-use state \<open>10\<close> equals \<open>af_count\<close>, the equality still holds after an allocation
  from the bit-slot \<open>2 * c\<close> of a chunk \<open>c\<close> of the zone (\<open>c\<close> below the number of its
  chunks), after a free or a permanent free of a chunk of the zone whose slot is in the
  in-use state (its high bit is 0), and after canary creation.
\<close>

theorem in_use_count_preserved:
  assumes "unat (af_count z) = in_use_count z"
  shows "(c < GET_CHUNK_COUNT z \<and>
          u_iso_alloc_bitslot_from_zone cfg (push_bit BITS_PER_CHUNK_SHIFT c) z m
            = Inr (p, z1, m1)
            \<longrightarrow> unat (af_count z1) = in_use_count z1) \<and>
         (iso_free_chunk_from_zone cfg z m t q permanent = Inr (z2, m2, t2) \<and>
          (q - UNMASK_USER_PTR z) div chunk_size z < GET_CHUNK_COUNT z \<and>
          bm_read (bitmap z) (free_word_index z q) = Inr b \<and>
          GET_BIT b (WHICH_BIT (free_bit_slot z q) + 1) = 0
            \<longrightarrow> unat (af_count z2) = in_use_count z2) \<and>
         (create_canary_chunks cfg z m g = Inr (z3, m3, g3)
            \<longrightarrow> unat (af_count z3) = in_use_count z3)"
proof (intro conjI impI)
  assume "c < GET_CHUNK_COUNT z \<and>
          u_iso_alloc_bitslot_from_zone cfg (push_bit BITS_PER_CHUNK_SHIFT c) z m
            = Inr (p, z1, m1)"
  then show "unat (af_count z1) = in_use_count z1"
    using alloc_preserves_count [OF assms] by blast
next
  assume "iso_free_chunk_from_zone cfg z m t q permanent = Inr (z2, m2, t2) \<and>
          (q - UNMASK_USER_PTR z) div chunk_size z < GET_CHUNK_COUNT z \<and>
          bm_read (bitmap z) (free_word_index z q) = Inr b \<and>
          GET_BIT b (WHICH_BIT (free_bit_slot z q) + 1) = 0"
  then show "unat (af_count z2) = in_use_count z2"
    using free_preserves_count [OF assms] by blast
next
  assume "create_canary_chunks cfg z m g = Inr (z3, m3, g3)"
  then show "unat (af_count z3) = in_use_count z3"
    using canary_preserves_count [OF assms] by blast
qed

lemma word_in_use_225: "word_in_use 225 = 1"
  by code_simp

lemma word_in_use_161: "word_in_use 161 = 1"
  by code_simp

lemma demo_count:
  assumes "chunk_size z = 8192" and "bitmap z = (replicate 512 0)[0 := w]"
  shows "in_use_count z = word_in_use w"
proof -
  let ?bm = "(replicate 512 0)[0 := w]"
  have t: "take 16 ?bm = (replicate 16 0)[0 := w]" by (simp add: take_update_swap)
  have "length (filter (slot_in_use ?bm) [0 ..< 32 * 16])
          = sum_list (map word_in_use (take 16 ?bm))"
    by (rule slots_of_words) simp
  also have "\<dots> = word_in_use w"
    unfolding t by (rule in_use_count_single) simp
  finally have c: "length (filter (slot_in_use ?bm) [0 ..< 32 * 16]) = word_in_use w" .
  have n: "unat (GET_CHUNK_COUNT z) = 32 * 16"
    using assms(1) by (simp add: GET_CHUNK_COUNT_def ZONE_USER_SIZE_def)
  show ?thesis unfolding in_use_count_def n assms(2) by (rule c)
qed

lemma demo_inv: "unat (af_count demo_zone) = in_use_count demo_zone"
proof -
  have "in_use_count demo_zone = word_in_use 225"
    by (rule demo_count) (simp_all add: demo_zone_def)
  then show ?thesis by (simp add: word_in_use_225) (simp add: demo_zone_def)
qed

lemma demo_inv_rest: "unat (af_count (MASK_ZONE_PTRS demo_zone)) = in_use_count (MASK_ZONE_PTRS demo_zone)"
proof -
  have "in_use_count (MASK_ZONE_PTRS demo_zone) = word_in_use 225"
    by (rule demo_count) (simp_all add: demo_zone_def MASK_ZONE_PTRS_def)
  then show ?thesis by (simp add: word_in_use_225) (simp add: demo_zone_def MASK_ZONE_PTRS_def)
qed

text \<open>
  Claim C3 as stated fails for a free of a chunk whose slot is in the state \<open>11\<close>, a
  canary chunk or a permanently freed chunk: the free path tests the low bit only. In
  \<open>demo_zone\<close>, where one slot is in use and \<open>af_count\<close> is 1, the free of the canary
  chunk at \<open>0x10006000\<close> returns and leaves \<open>af_count\<close> at 0 with one slot still in use.
\<close>

theorem free_of_canary_chunk_counterexample:
  "unat (af_count (MASK_ZONE_PTRS demo_zone)) = in_use_count (MASK_ZONE_PTRS demo_zone) \<and>
   \<not> isl (iso_free_chunk_from_zone demo_cfg (MASK_ZONE_PTRS demo_zone) demo_mem demo_tc
            0x10006000 False) \<and>
   unat (af_count (fst (projr (iso_free_chunk_from_zone demo_cfg (MASK_ZONE_PTRS demo_zone)
                                 demo_mem demo_tc 0x10006000 False)))) = 0 \<and>
   in_use_count (fst (projr (iso_free_chunk_from_zone demo_cfg (MASK_ZONE_PTRS demo_zone)
                                 demo_mem demo_tc 0x10006000 False))) = 1"
proof -
  have "iso_free_chunk_from_zone demo_cfg (MASK_ZONE_PTRS demo_zone) demo_mem demo_tc
            0x10006000 False =
        Inr ((MASK_ZONE_PTRS demo_zone)
               \<lparr>free_bit_slot_cache := (free_bit_slot_cache demo_zone)(2 := 6),
                 free_bit_slot_cache_index := 3, is_full := False,
                 bitmap := (replicate 512 0)[0 := 161], af_count := 0\<rparr>,
             demo_mem(0x10006000 := 0x1122334445661700, 0x10007FF8 := 0x1122334445661700),
             demo_tc\<lparr>zone_cache := (zone_cache demo_tc)(0 := (1, 8192)),
                     zone_cache_count := 1\<rparr>)"
    by (simp add: demo_eval check_canary_def demo_mem_def)
  moreover have "in_use_count ((MASK_ZONE_PTRS demo_zone)
               \<lparr>free_bit_slot_cache := (free_bit_slot_cache demo_zone)(2 := 6),
                 free_bit_slot_cache_index := 3, is_full := False,
                 bitmap := (replicate 512 0)[0 := 161], af_count := 0\<rparr>) = word_in_use 161"
    by (rule demo_count) (simp_all add: demo_zone_def MASK_ZONE_PTRS_def)
  ultimately show ?thesis
    using demo_inv_rest by (simp add: word_in_use_161)
qed

lemma demo_alloc4: "\<not> isl (u_iso_alloc_bitslot_from_zone demo_cfg 4 demo_zone demo_mem)"
  by (simp add: u_iso_alloc_bitslot_from_zone_def demo_eval check_canary_def demo_mem_def
      POINTER_FROM_BITSLOT_def)

lemma demo_canaries: "\<not> isl (create_canary_chunks demo_cfg demo_zone demo_mem demo_rng)"
  by code_simp

lemma demo_rd_chunk0:
  "bm_read (bitmap (MASK_ZONE_PTRS demo_zone)) (free_word_index (MASK_ZONE_PTRS demo_zone) 0x10000000)
     = Inr 225 \<and>
   GET_BIT 225 (WHICH_BIT (free_bit_slot (MASK_ZONE_PTRS demo_zone) 0x10000000) + 1) = 0"
  by (simp add: free_word_index_def free_bit_slot_def demo_eval)

lemma demo_chunks:
  "(2 :: 64 word) < GET_CHUNK_COUNT demo_zone \<and>
   push_bit BITS_PER_CHUNK_SHIFT (2 :: 64 word) = 4 \<and>
   (0x10000000 - UNMASK_USER_PTR (MASK_ZONE_PTRS demo_zone)) div chunk_size (MASK_ZONE_PTRS demo_zone)
     < GET_CHUNK_COUNT (MASK_ZONE_PTRS demo_zone)"
  by (simp add: GET_CHUNK_COUNT_def ZONE_USER_SIZE_def demo_zone_def BITS_PER_CHUNK_SHIFT_def
        MASK_ZONE_PTRS_def UNMASK_USER_PTR_def)

theorem in_use_count_preserved_witness:
  "unat (af_count demo_zone) = in_use_count demo_zone \<and>
   (2 :: 64 word) < GET_CHUNK_COUNT demo_zone \<and>
   (\<exists>p z1 m1. u_iso_alloc_bitslot_from_zone demo_cfg (push_bit BITS_PER_CHUNK_SHIFT 2)
                  demo_zone demo_mem = Inr (p, z1, m1) \<and>
      unat (af_count z1) = in_use_count z1) \<and>
   (\<exists>z3 m3 g3. create_canary_chunks demo_cfg demo_zone demo_mem demo_rng = Inr (z3, m3, g3) \<and>
      unat (af_count z3) = in_use_count z3) \<and>
   unat (af_count (MASK_ZONE_PTRS demo_zone)) = in_use_count (MASK_ZONE_PTRS demo_zone) \<and>
   (0x10000000 - UNMASK_USER_PTR (MASK_ZONE_PTRS demo_zone)) div chunk_size (MASK_ZONE_PTRS demo_zone)
     < GET_CHUNK_COUNT (MASK_ZONE_PTRS demo_zone) \<and>
   bm_read (bitmap (MASK_ZONE_PTRS demo_zone)) (free_word_index (MASK_ZONE_PTRS demo_zone) 0x10000000)
     = Inr 225 \<and>
   GET_BIT 225 (WHICH_BIT (free_bit_slot (MASK_ZONE_PTRS demo_zone) 0x10000000) + 1) = 0 \<and>
   (\<exists>z2 m2 t2.
      iso_free_chunk_from_zone demo_cfg (MASK_ZONE_PTRS demo_zone) demo_mem demo_tc
        0x10000000 False = Inr (z2, m2, t2) \<and>
      unat (af_count z2) = in_use_count z2)"
proof -
  from demo_chunks have ch: "(2 :: 64 word) < GET_CHUNK_COUNT demo_zone"
    and sl: "push_bit BITS_PER_CHUNK_SHIFT (2 :: 64 word) = 4"
    and fc: "(0x10000000 - UNMASK_USER_PTR (MASK_ZONE_PTRS demo_zone))
               div chunk_size (MASK_ZONE_PTRS demo_zone)
             < GET_CHUNK_COUNT (MASK_ZONE_PTRS demo_zone)"
    by blast+
  from demo_alloc4 obtain p z1 m1 where
    a: "u_iso_alloc_bitslot_from_zone demo_cfg (push_bit BITS_PER_CHUNK_SHIFT 2) demo_zone demo_mem
          = Inr (p, z1, m1)"
    unfolding sl
    by (cases "u_iso_alloc_bitslot_from_zone demo_cfg 4 demo_zone demo_mem") auto
  from demo_canaries obtain z3 m3 g3 where
    c: "create_canary_chunks demo_cfg demo_zone demo_mem demo_rng = Inr (z3, m3, g3)"
    by (cases "create_canary_chunks demo_cfg demo_zone demo_mem demo_rng") auto
  from demo_free_chunk0 obtain z2 m2 t2 where
    f: "iso_free_chunk_from_zone demo_cfg (MASK_ZONE_PTRS demo_zone) demo_mem demo_tc
        0x10000000 False = Inr (z2, m2, t2)"
    by (cases "iso_free_chunk_from_zone demo_cfg (MASK_ZONE_PTRS demo_zone) demo_mem demo_tc
        0x10000000 False") auto
  note t1 = in_use_count_preserved [OF demo_inv, where cfg = demo_cfg and m = demo_mem]
  from t1 [where c = 2 and p = p and ?z1.0 = z1 and ?m1.0 = m1] ch a
  have 1: "unat (af_count z1) = in_use_count z1" by blast
  from t1 [where g = demo_rng and ?z3.0 = z3 and ?m3.0 = m3 and ?g3.0 = g3] c
  have 3: "unat (af_count z3) = in_use_count z3" by blast
  from in_use_count_preserved [OF demo_inv_rest, where cfg = demo_cfg and m = demo_mem
      and t = demo_tc and q = "0x10000000" and permanent = False and ?z2.0 = z2 and ?m2.0 = m2
      and ?t2.0 = t2 and b = 225] f fc demo_rd_chunk0
  have 2: "unat (af_count z2) = in_use_count z2" by blast
  show ?thesis
    using demo_inv ch a 1 c 3 demo_inv_rest fc demo_rd_chunk0 f 2 by blast
qed

section \<open>Properties of the entry points\<close>


lemma thenP_simps [simp]:
  "thenP None f = None" "thenP (Some (Inl e)) f = Some (Inl e)" "thenP (Some (Inr a)) f = f a"
  by (simp_all add: thenP_def)

lemma thenE_simps [simp]:
  "thenE (Inl e) f = Inl e" "thenE (Inr a) f = f a"
  by (simp_all add: thenE_def)

text \<open>
  Claim C10. With \<^verbatim>\<open>NO_ZERO_ALLOCATIONS\<close>, \<^verbatim>\<open>_iso_free_size\<close> of the zero-allocation
  sentinel page aborts whenever the size is not 0 and leaves the state unchanged when it
  is 0; \<^verbatim>\<open>_iso_free\<close> of the sentinel page leaves the state unchanged, permanent or
  not. The sentinel page is a mapped page, not null.
\<close>

theorem free_size_of_sentinel:
  assumes "NO_ZERO_ALLOCATIONS cfg" and "zero_alloc_page st \<noteq> 0"
  shows "(sz \<noteq> 0 \<longrightarrow>
            u_iso_free_size cfg st (zero_alloc_page st) sz = Some (Inl (Abort ZeroSizedChunk))) \<and>
         u_iso_free_size cfg st (zero_alloc_page st) 0 = Some (Inr st) \<and>
         u_iso_free cfg st (zero_alloc_page st) permanent = Some (Inr st)"
  using assms by (simp add: u_iso_free_size_def u_iso_free_def)

theorem free_size_of_sentinel_witness:
  "NO_ZERO_ALLOCATIONS demo_cfg \<and> zero_alloc_page demo_st \<noteq> 0 \<and> (5 :: 64 word) \<noteq> 0 \<and>
   u_iso_free_size demo_cfg demo_st (zero_alloc_page demo_st) 5 = Some (Inl (Abort ZeroSizedChunk)) \<and>
   u_iso_free_size demo_cfg demo_st (zero_alloc_page demo_st) 0 = Some (Inr demo_st) \<and>
   u_iso_free demo_cfg demo_st (zero_alloc_page demo_st) False = Some (Inr demo_st) \<and>
   u_iso_free demo_cfg demo_st (zero_alloc_page demo_st) True = Some (Inr demo_st)"
proof -
  have a: "NO_ZERO_ALLOCATIONS demo_cfg" by (simp add: demo_cfg_def)
  have b: "zero_alloc_page demo_st \<noteq> 0" by (simp add: demo_st_def)
  have c: "(5 :: 64 word) \<noteq> 0" by simp
  from free_size_of_sentinel [OF a b, of 5 False] free_size_of_sentinel [OF a b, of 5 True] a b c
  show ?thesis by blast
qed

text \<open>
  Claim C7. With no private zone, once the root exists (\<open>st1\<close> is the state after the
  lazy creation of the root, the state itself when the root is there), \<^verbatim>\<open>_iso_alloc\<close>
  gives a request of exactly \<open>SMALL_SZ_MAX\<close> bytes to the small, zone-based path and a
  request of \<open>SMALL_SZ_MAX + 1\<close> bytes to \<^verbatim>\<open>_iso_big_alloc\<close>. \<open>SMALL_SZ_MAX\<close> is a
  size: neither 0 nor the largest 64-bit value.
\<close>

theorem alloc_dispatch_at_small_sz_max:
  assumes "iso_alloc_initialize_global_root cfg st = Some (Inr st1)"
    and "SMALL_SZ_MAX cfg \<noteq> 0" and "SMALL_SZ_MAX cfg + 1 \<noteq> 0"
  shows "u_iso_alloc cfg st None (SMALL_SZ_MAX cfg) = iso_alloc_small cfg st1 None (SMALL_SZ_MAX cfg) \<and>
         u_iso_alloc cfg st None (SMALL_SZ_MAX cfg + 1) = u_iso_big_alloc cfg st1 (SMALL_SZ_MAX cfg + 1)"
proof -
  have "SMALL_SZ_MAX cfg < SMALL_SZ_MAX cfg + 1"
    using assms(3)
    by (metis add.commute add.right_inverse inc_less_eq_self_iff_eq verit_comp_simplify1(3))
  then have "\<not> SMALL_SZ_MAX cfg + 1 \<le> SMALL_SZ_MAX cfg" by simp
  with assms show ?thesis by (simp add: u_iso_alloc_def)
qed


theorem alloc_dispatch_at_small_sz_max_witness:
  "iso_alloc_initialize_global_root demo_cfg demo_st = Some (Inr demo_st) \<and>
   SMALL_SZ_MAX demo_cfg \<noteq> 0 \<and> SMALL_SZ_MAX demo_cfg + 1 \<noteq> 0 \<and>
   u_iso_alloc demo_cfg demo_st None (SMALL_SZ_MAX demo_cfg)
     = iso_alloc_small demo_cfg demo_st None (SMALL_SZ_MAX demo_cfg) \<and>
   u_iso_alloc demo_cfg demo_st None (SMALL_SZ_MAX demo_cfg + 1)
     = u_iso_big_alloc demo_cfg demo_st (SMALL_SZ_MAX demo_cfg + 1)"
proof -
  have a: "iso_alloc_initialize_global_root demo_cfg demo_st = Some (Inr demo_st)"
    by (simp add: iso_alloc_initialize_global_root_def demo_st_def)
  have b: "SMALL_SZ_MAX demo_cfg \<noteq> 0" "SMALL_SZ_MAX demo_cfg + 1 \<noteq> 0"
    by (simp_all add: demo_cfg_def)
  from alloc_dispatch_at_small_sz_max [OF a b] a b show ?thesis by blast
qed

lemma calloc_no_abort_without_32_bit_overflow:
  assumes "unat (ucast nmemb :: 32 word) * unat (ucast sz :: 32 word) < 2 ^ 32"
  shows "u_iso_calloc cfg st nmemb sz =
           thenP (u_iso_alloc cfg st None (nmemb * sz))
             (\<lambda>(p, st1).
                if p = 0 \<and> nmemb * sz \<noteq> 0 then Some (Inl Fault)
                else Some (Inr (p, st1\<lparr>umem := (\<lambda>a. if a - p < nmemb * sz then 0
                                                     else umem st1 a)\<rparr>)))"
  using assms by (simp add: u_iso_calloc_def builtin_umul_overflow_def)

lemma calloc_aborts_on_32_bit_overflow:
  assumes "unat (ucast nmemb :: 32 word) * unat (ucast sz :: 32 word) \<ge> 2 ^ 32"
  shows "u_iso_calloc cfg st nmemb sz = Some (Inl (Abort CallocOverflow))"
  using assms by (simp add: u_iso_calloc_def builtin_umul_overflow_def)

text \<open>
  Claim C4. The claim is that \<^verbatim>\<open>_iso_calloc\<close> aborts exactly when \<open>nmemb * size\<close>
  overflows 64 bits. The code tests the overflow of the product of the two arguments
  truncated to 32 bits. With \<open>nmemb = size = 2 ^ 32\<close> the product overflows 64 bits and
  \<^verbatim>\<open>_iso_calloc\<close> does not abort: it asks for 0 bytes and returns the sentinel page.
  With \<open>nmemb = size = 2 ^ 16\<close> the product does not overflow 64 bits and
  \<^verbatim>\<open>_iso_calloc\<close> aborts.
\<close>

theorem calloc_overflow_check_is_32_bit:
  "unat (0x100000000 :: 64 word) * unat (0x100000000 :: 64 word) \<ge> 2 ^ 64 \<and>
   result_ptr (u_iso_calloc demo_cfg demo_st 0x100000000 0x100000000)
     = Some (Inr (zero_alloc_page demo_st)) \<and>
   unat (0x10000 :: 64 word) * unat (0x10000 :: 64 word) < 2 ^ 64 \<and>
   u_iso_calloc demo_cfg demo_st 0x10000 0x10000 = Some (Inl (Abort CallocOverflow))"
  by (simp add: u_iso_calloc_def builtin_umul_overflow_def u_iso_alloc_def demo_cfg_def
      demo_st_def result_ptr_def)

section \<open>The lifetime allocation counter\<close>

text \<open>
  The fields that each step of the allocator preserves. In particular the check of a
  zone, \<open>zone_fits\<close>, changes neither \<open>zones_used\<close> nor the caches of the thread.
\<close>

lemma MASK_ZONE_PTRS_fields [simp]:
  "internal (UNMASK_ZONE_PTRS z) = internal z"
  "alloc_count (UNMASK_ZONE_PTRS z) = alloc_count z"
  "chunk_size (UNMASK_ZONE_PTRS z) = chunk_size z"
  "af_count (UNMASK_ZONE_PTRS z) = af_count z"
  "index (UNMASK_ZONE_PTRS z) = index z"
  "internal (MASK_ZONE_PTRS z) = internal z"
  "alloc_count (MASK_ZONE_PTRS z) = alloc_count z"
  "chunk_size (MASK_ZONE_PTRS z) = chunk_size z"
  by (simp_all add: UNMASK_ZONE_PTRS_def MASK_ZONE_PTRS_def)

lemma canary_loop_fields:
  "canary_loop cfg mx n z m g = Inr (z', m', g') \<Longrightarrow>
     alloc_count z' = alloc_count z \<and> chunk_size z' = chunk_size z \<and>
     internal z' = internal z \<and> index z' = index z"
proof (induction n arbitrary: z m g)
  case 0
  then show ?case by simp
next
  case (Suc n)
  then show ?case
    by (auto simp: Let_def split: prod.splits if_splits sum.splits dest!: Suc.IH)
qed

lemma create_canary_chunks_fields:
  "create_canary_chunks cfg z m g = Inr (z', m', g') \<Longrightarrow>
     alloc_count z' = alloc_count z \<and> chunk_size z' = chunk_size z \<and>
     internal z' = internal z \<and> index z' = index z"
  by (auto simp: create_canary_chunks_def split: if_splits dest: canary_loop_fields)

lemma fill_free_bit_slot_cache_fields:
  "fill_free_bit_slot_cache cfg z g = Inr (z', g') \<Longrightarrow>
     alloc_count z' = alloc_count z \<and> chunk_size z' = chunk_size z \<and>
     internal z' = internal z \<and> index z' = index z"
  by (auto simp: fill_free_bit_slot_cache_def Let_def split: if_splits sum.splits prod.splits)

lemma get_next_free_bit_slot_fields [simp]:
  "alloc_count (snd (get_next_free_bit_slot z)) = alloc_count z"
  "chunk_size (snd (get_next_free_bit_slot z)) = chunk_size z"
  "internal (snd (get_next_free_bit_slot z)) = internal z"
  "index (snd (get_next_free_bit_slot z)) = index z"
  by (simp_all add: get_next_free_bit_slot_def Let_def)

lemma mmap_pages_fields:
  "mmap_pages cfg st = Inr (p, st') \<Longrightarrow>
     zones st' = zones st \<and> zones_used st' = zones_used st \<and>
     zone_lookup_table st' = zone_lookup_table st"
  by (auto simp: mmap_pages_def Let_def split: if_splits)

lemma create_guard_page_fields:
  "create_guard_page cfg st p = Inr (p', st') \<Longrightarrow>
     zones st' = zones st \<and> zones_used st' = zones_used st \<and>
     zone_lookup_table st' = zone_lookup_table st"
  by (auto simp: create_guard_page_def mmap_rw_pages_def split: if_splits sum.splits
           dest: mmap_pages_fields)

lemma new_zone_map_fields:
  assumes "new_zone_map cfg st nz = Inr (nz1, st1)"
  shows "zones st1 = zones st \<and> zones_used st1 = zones_used st \<and>
         zone_lookup_table st1 = zone_lookup_table st \<and>
         alloc_count nz1 = alloc_count nz \<and> chunk_size nz1 = chunk_size nz \<and>
         internal nz1 = internal nz"
  using assms unfolding new_zone_map_def mmap_rw_pages_def
  by (auto dest!: thenE_InrD mmap_pages_fields create_guard_page_fields simp: Let_def)

lemma new_zone_seed_fields:
  assumes "new_zone_seed cfg st nz = Inr (nz2, st2)"
  shows "zones st2 = zones st \<and> zones_used st2 = zones_used st \<and>
         zone_lookup_table st2 = zone_lookup_table st \<and>
         alloc_count nz2 = alloc_count nz \<and> chunk_size nz2 = chunk_size nz \<and>
         internal nz2 = internal nz \<and> index nz2 = zones_used st"
  using assms unfolding new_zone_seed_def
  by (auto dest!: thenE_InrD create_canary_chunks_fields fill_free_bit_slot_cache_fields
           split: prod.splits)

lemma new_zone_chain_fields:
  assumes "new_zone_chain st sz ni i = Some (Inr st')"
  shows "zones_used st' = zones_used st \<and>
         (\<forall>j. alloc_count (zones st' j) = alloc_count (zones st j))"
proof -
  have "\<forall>s. (Inr st' :: error + iso_state) = Inr s \<longrightarrow>
          zones_used s = zones_used st \<and>
          (\<forall>j. alloc_count (zones s j) = alloc_count (zones st j))"
    by (rule new_zone_chain.raw_induct
          [where P = "\<lambda>st sz ni i r. \<forall>s. r = Inr s \<longrightarrow>
                        zones_used s = zones_used st \<and>
                        (\<forall>j. alloc_count (zones s j) = alloc_count (zones st j))",
           OF _ assms])
       (auto split: if_splits)
  then show ?thesis by simp
qed

lemma new_zone_chain_end:
  "\<not> i < zones_used st \<Longrightarrow> new_zone_chain st sz ni i = Some (Inr st)"
  by (subst new_zone_chain.simps) simp

lemma new_zone_publish_Inr:
  assumes "new_zone_publish cfg st nz = Some (Inr (r, st'))"
  shows "r = Some (zones_used st) \<and> zones_used st' = Suc (zones_used st) \<and>
         alloc_count (zones st' (zones_used st)) = alloc_count nz \<and>
         (\<forall>j. j \<noteq> zones_used st \<longrightarrow> alloc_count (zones st' j) = alloc_count (zones st j))"
  using assms unfolding new_zone_publish_def
  by (auto dest!: thenP_InrD new_zone_chain_fields simp: Let_def split: if_splits)

lemma alloc_count_new_zone_init [simp]: "alloc_count (new_zone_init sz intern) = 0"
  by (simp add: new_zone_init_def zero_zone_def Let_def)

lemma u_iso_new_zone_Inr:
  assumes "u_iso_new_zone cfg st sz intern = Some (Inr (r, st'))"
  shows "(r = None \<and> st' = st) \<or>
         (r = Some (zones_used st) \<and> zones_used st' = Suc (zones_used st) \<and>
          alloc_count (zones st' (zones_used st)) = 0 \<and>
          (\<forall>j. j \<noteq> zones_used st \<longrightarrow> alloc_count (zones st' j) = alloc_count (zones st j)))"
proof (cases "zones_used st \<ge> MAX_ZONES \<or>
              (if \<not> is_pow2 sz then next_pow2 sz else sz) > SMALL_SZ_MAX cfg")
  case True
  with assms show ?thesis by (auto simp: u_iso_new_zone_def Let_def split: if_splits)
next
  case False
  with assms obtain s nz1 st1 nz2 st2 where
    a: "new_zone_map cfg st (new_zone_init s intern) = Inr (nz1, st1)"
    and b: "new_zone_seed cfg st1 nz1 = Inr (nz2, st2)"
    and c: "new_zone_publish cfg st2 nz2 = Some (Inr (r, st'))"
    by (auto simp: u_iso_new_zone_def Let_def split: if_splits dest!: thenP_InrD)
  from new_zone_map_fields [OF a] new_zone_seed_fields [OF b] new_zone_publish_Inr [OF c]
  show ?thesis by simp
qed

lemma destroy_zone_core_replace:
  assumes "destroy_zone_core cfg st zi True = Some (Inr st')" and "internal (zones st zi)"
  shows "alloc_count (zones st' j) = alloc_count (zones st j) \<or>
         (j = index (zones st zi) \<and> alloc_count (zones st' j) = 0)"
proof -
  from assms obtain nz st1 where
    a: "u_iso_new_zone cfg
          ((u_unmap_zone cfg (st\<lparr>zones := (zones st)(zi := UNMASK_ZONE_PTRS (zones st zi))\<rparr>) zi)
             \<lparr>zones_used := index (zones st zi)\<rparr>)
          (chunk_size (zones st zi)) True = Some (Inr (nz, st1))"
    and b: "st' = st1\<lparr>zones_used := zones_used st\<rparr>"
    by (auto simp: destroy_zone_core_def Let_def dest!: thenP_InrD)
  from u_iso_new_zone_Inr [OF a] b show ?thesis
    by (cases "j = index (zones st zi)") (auto simp: u_unmap_zone_def split: if_splits)
qed

lemma big_unlink_walk_zones:
  assumes "big_unlink_walk cfg st bz big = Some (Inr (st', b))"
  shows "zones st' = zones st"
proof -
  have "\<forall>s c. (Inr (st', b) :: error + (iso_state \<times> 64 word)) = Inr (s, c) \<longrightarrow> zones s = zones st"
    by (rule big_unlink_walk.raw_induct
          [where P = "\<lambda>cfg st bz big r. \<forall>s c. r = Inr (s, c) \<longrightarrow> zones s = zones st",
           OF _ assms])
       (auto split: if_splits option.splits sum.splits)
  then show ?thesis by simp
qed

lemma iso_free_big_zone_zones:
  assumes "iso_free_big_zone cfg st bz permanent = Some (Inr st')"
  shows "zones st' = zones st"
  using assms unfolding iso_free_big_zone_def
  by (auto simp: Let_def split: option.splits if_splits sum.splits dest!: big_unlink_walk_zones)

text \<open>
  A free leaves every \<open>alloc_count\<close> as it is, except that of the index of a zone that
  it retires, which is 0 after the replacement of the zone.
\<close>

lemma free_internal_retires:
  assumes "u_iso_free_internal_unlocked cfg st p permanent zone = Some (Inr st')"
  shows "alloc_count (zones st' j) = alloc_count (zones st j) \<or>
         (free_retires cfg st p permanent zone = Some j \<and> alloc_count (zones st' j) = 0)"
proof -
  from assms obtain zone1 where
    0: "(case zone of
           None \<Rightarrow> Some (iso_find_zone_range cfg st p)
         | Some zi \<Rightarrow> Some (Inr (Some zi))) = Some (Inr zone1)"
    and 1: "(case zone1 of
           Some zi \<Rightarrow>
             thenP (Some (iso_free_chunk_from_zone cfg (zones st zi) (umem st) (thread st)
                            p permanent))
               (\<lambda>(z1, m1, t1).
                  let st1 = st\<lparr>zones := (zones st)(zi := z1), umem := m1, thread := t1\<rparr>
                  in if u_is_zone_retired z1 then destroy_zone_core cfg st1 zi True
                     else Some (Inr st1))
         | None \<Rightarrow>
             thenP (iso_find_big_zone cfg st p)
               (\<lambda>big_zone.
                  if big_zone = 0 then Some (Inl (Abort NoZoneFound))
                  else iso_free_big_zone cfg st big_zone permanent)) = Some (Inr st')"
    unfolding u_iso_free_internal_unlocked_def by (auto dest!: thenP_InrD)
  from 0 have l: "(case zone of
                     None \<Rightarrow> iso_find_zone_range cfg st p
                   | Some zi \<Rightarrow> Inr (Some zi)) = Inr zone1"
    by (cases zone) auto
  show ?thesis
  proof (cases zone1)
    case None
    with 1 have "zones st' = zones st"
      by (auto dest!: thenP_InrD iso_free_big_zone_zones split: if_splits)
    then show ?thesis by simp
  next
    case (Some zi)
    with 1 obtain z1 m1 t1 where
      f: "iso_free_chunk_from_zone cfg (zones st zi) (umem st) (thread st) p permanent
            = Inr (z1, m1, t1)"
      and 2: "(if u_is_zone_retired z1
               then destroy_zone_core cfg
                      (st\<lparr>zones := (zones st)(zi := z1), umem := m1, thread := t1\<rparr>) zi True
               else Some (Inr (st\<lparr>zones := (zones st)(zi := z1), umem := m1, thread := t1\<rparr>)))
              = Some (Inr st')"
      by (auto dest!: thenP_InrD simp: Let_def)
    note ac = iso_free_chunk_from_zone_Inr(11) [OF f]
    define st1 where "st1 = st\<lparr>zones := (zones st)(zi := z1), umem := m1, thread := t1\<rparr>"
    have s: "alloc_count (zones st1 j) = alloc_count (zones st j)" "zones st1 zi = z1"
      using ac by (cases "j = zi"; simp add: st1_def)+
    show ?thesis
    proof (cases "u_is_zone_retired z1")
      case False
      with 2 have "st' = st1" by (simp add: st1_def)
      with s show ?thesis by simp
    next
      case True
      with 2 have d: "destroy_zone_core cfg st1 zi True = Some (Inr st')"
        by (simp add: st1_def)
      from True have i: "internal (zones st1 zi)" by (simp add: s u_is_zone_retired_def)
      from l f True Some have r: "free_retires cfg st p permanent zone = Some (index z1)"
        by (simp add: free_retires_def)
      from destroy_zone_core_replace [OF d i, of j] s r show ?thesis by auto
    qed
  qed
qed

lemma drain_quarantine_retires:
  "drain_quarantine cfg st i n = Some (Inr st') \<Longrightarrow>
     alloc_count (zones st' j) = alloc_count (zones st j) \<or>
     (j \<in> set (drain_retires cfg st i n) \<and> alloc_count (zones st' j) = 0)"
proof (induction n arbitrary: st i)
  case 0
  then show ?case by simp
next
  case (Suc n)
  from Suc.prems have c: "\<not> i \<ge> CHUNK_QUARANTINE_SZ" by (auto split: if_splits)
  with Suc.prems obtain st1 where
    a: "u_iso_free_internal_unlocked cfg st (chunk_quarantine (thread st) i) False None
          = Some (Inr st1)"
    and b: "drain_quarantine cfg st1 (i + 1) n = Some (Inr st')"
    by (auto split: if_splits dest!: thenP_InrD)
  from a c have e: "drain_retires cfg st i (Suc n) =
      (case free_retires cfg st (chunk_quarantine (thread st) i) False None of
         None \<Rightarrow> []
       | Some k \<Rightarrow> [k]) @ drain_retires cfg st1 (i + 1) n"
    by simp
  from free_internal_retires [OF a, of j] Suc.IH [OF b] show ?case
    unfolding e by auto
qed

lemma u_flush_chunk_quarantine_retires:
  "u_flush_chunk_quarantine cfg st = Some (Inr st') \<Longrightarrow>
     alloc_count (zones st' j) = alloc_count (zones st j) \<or>
     (j \<in> set (drain_retires cfg st 0 (chunk_quarantine_count (thread st))) \<and>
      alloc_count (zones st' j) = 0)"
  unfolding u_flush_chunk_quarantine_def
  by (auto dest!: thenP_InrD drain_quarantine_retires [where j = j])

lemma u_iso_free_retires:
  assumes "u_iso_free cfg st p permanent = Some (Inr st')"
  shows "alloc_count (zones st' j) = alloc_count (zones st j) \<or>
         (j \<in> set (iso_free_retires cfg st p permanent) \<and> alloc_count (zones st' j) = 0)"
proof (cases "p = 0 \<or> (NO_ZERO_ALLOCATIONS cfg \<and> p = zero_alloc_page st)")
  case True
  with assms have "st' = st" by (auto simp: u_iso_free_def split: if_splits)
  then show ?thesis by simp
next
  case n: False
  show ?thesis
  proof (cases permanent)
    case True
    with n assms
    have "u_iso_free_internal_unlocked cfg st p permanent None = Some (Inr st')"
      by (auto simp: u_iso_free_def u_iso_free_internal_def)
    from free_internal_retires [OF this, of j] True n show ?thesis
      by (auto simp: iso_free_retires_def)
  next
    case False
    show ?thesis
    proof (cases "chunk_quarantine_count (thread st) < CHUNK_QUARANTINE_SZ")
      case True
      with False n assms show ?thesis by (auto simp: u_iso_free_def)
    next
      case q: False
      with False n assms obtain st1 where
        d: "drain_quarantine cfg st 0 (chunk_quarantine_count (thread st)) = Some (Inr st1)"
        and "zones st' = zones st1"
        by (auto simp: u_iso_free_def Let_def dest!: thenP_InrD)
      with drain_quarantine_retires [OF d, of j] False n q show ?thesis
        by (auto simp: iso_free_retires_def)
    qed
  qed
qed


lemma is_zone_usable_fields:
  assumes "is_zone_usable cfg z g sz = Inr (u, z', g')"
  shows "alloc_count z' = alloc_count z"
proof (cases "is_full z \<or> (internal z \<and> sz > ZONE_1024 \<and>
              chunk_size z \<ge> push_bit (WASTED_SZ_MULTIPLIER_SHIFT cfg) sz) \<or>
              next_free_bit_slot z \<noteq> BAD_BIT_SLOT")
  case True
  with assms show ?thesis by (auto simp: is_zone_usable_def split: if_splits)
next
  case False
  with assms obtain z1 g1 where
    a: "(if free_bit_slot_cache_usable (UNMASK_ZONE_PTRS z)
              \<ge> free_bit_slot_cache_index (UNMASK_ZONE_PTRS z)
         then fill_free_bit_slot_cache cfg (UNMASK_ZONE_PTRS z) g
         else Inr (UNMASK_ZONE_PTRS z, g)) = Inr (z1, g1)"
    and b: "(case get_next_free_bit_slot z1 of
               (bit_slot, z2) \<Rightarrow>
                 if bit_slot \<noteq> BAD_BIT_SLOT then Inr (True, MASK_ZONE_PTRS z2, g1)
                 else
                   thenE (iso_scan_zone_free_slot z2)
                     (\<lambda>bit_slot1.
                        if bit_slot1 = BAD_BIT_SLOT
                        then thenE (iso_scan_zone_free_slot_slow z2)
                               (\<lambda>bit_slot2.
                                  if bit_slot2 = BAD_BIT_SLOT
                                  then Inr (False, (MASK_ZONE_PTRS z2)\<lparr>is_full := True\<rparr>, g1)
                                  else Inr (True,
                                            (MASK_ZONE_PTRS z2)\<lparr>next_free_bit_slot := bit_slot2\<rparr>,
                                            g1))
                        else Inr (True,
                                  MASK_ZONE_PTRS (z2\<lparr>next_free_bit_slot := bit_slot1\<rparr>),
                                  g1))) = Inr (u, z', g')"
    by (auto simp: is_zone_usable_def dest!: thenE_InrD)
  from a have 1: "alloc_count z1 = alloc_count z"
    by (auto split: if_splits dest!: fill_free_bit_slot_cache_fields)
  obtain bs z2 where g: "get_next_free_bit_slot z1 = (bs, z2)" by (cases "get_next_free_bit_slot z1")
  then have 2: "alloc_count z2 = alloc_count z1"
    using get_next_free_bit_slot_fields(1) [of z1] by simp
  from b g have "alloc_count z' = alloc_count z2"
    by (auto split: if_splits dest!: thenE_InrD)
  with 1 2 show ?thesis by simp
qed

lemma zone_fits_fields:
  assumes "zone_fits cfg st i sz = Inr (fits, st')"
  shows "zones_used st' = zones_used st \<and> thread st' = thread st \<and>
         (\<forall>j. alloc_count (zones st' j) = alloc_count (zones st j))"
proof -
  from assms obtain z' g' where
    a: "iso_does_zone_fit cfg (zones st i) (rand st) sz = Inr (fits, z', g')"
    and b: "st' = st\<lparr>zones := (zones st)(i := z'), rand := g'\<rparr>"
    by (auto simp: zone_fits_def split: if_splits dest!: thenE_InrD)
  from a have "alloc_count z' = alloc_count (zones st i)"
    by (auto simp: iso_does_zone_fit_def split: if_splits dest!: is_zone_usable_fields)
  with b show ?thesis by simp
qed

lemma find_fit_chain_fields:
  assumes "find_fit_chain cfg st sz i = Some (Inr (r, k, st'))"
  shows "zones_used st' = zones_used st \<and> thread st' = thread st \<and>
         (\<forall>j. alloc_count (zones st' j) = alloc_count (zones st j))"
proof -
  have "\<forall>r0 k0 s. (Inr (r, k, st') :: error + (nat option \<times> nat \<times> iso_state)) = Inr (r0, k0, s) \<longrightarrow>
          zones_used s = zones_used st \<and> thread s = thread st \<and>
          (\<forall>j. alloc_count (zones s j) = alloc_count (zones st j))"
    by (rule find_fit_chain.raw_induct
          [where P = "\<lambda>cfg st sz i x. \<forall>r0 k0 s. x = Inr (r0, k0, s) \<longrightarrow>
                        zones_used s = zones_used st \<and> thread s = thread st \<and>
                        (\<forall>j. alloc_count (zones s j) = alloc_count (zones st j))",
           OF _ assms])
       (auto split: if_splits sum.splits dest!: zone_fits_fields)
  then show ?thesis by simp
qed

lemma find_fit_linear_fields:
  "find_fit_linear cfg st sz i = Inr (r, st') \<Longrightarrow>
     zones_used st' = zones_used st \<and> thread st' = thread st \<and>
     (\<forall>j. alloc_count (zones st' j) = alloc_count (zones st j))"
proof (induction cfg st sz i rule: find_fit_linear.induct)
  case (1 cfg st sz i)
  show ?case
  proof (cases "i < zones_used st")
    case False
    with "1.prems" show ?thesis by (simp add: find_fit_linear.simps [of cfg st sz i])
  next
    case True
    with "1.prems" obtain fits st1 where
      a: "zone_fits cfg st i sz = Inr (fits, st1)"
      and b: "(if fits then Inr (Some i, st1)
               else find_fit_linear cfg (st1\<lparr>zones_used := zones_used st\<rparr>) sz (i + 1))
              = Inr (r, st')"
      by (auto simp: find_fit_linear.simps [of cfg st sz i] split: sum.splits)
    note f = zone_fits_fields [OF a]
    show ?thesis
    proof (cases fits)
      case True
      with b f show ?thesis by simp
    next
      case False
      with b have "find_fit_linear cfg (st1\<lparr>zones_used := zones_used st\<rparr>) sz (i + 1) = Inr (r, st')"
        by simp
      from "1.IH" [OF True a refl False this] f show ?thesis by simp
    qed
  qed
qed

lemma iso_find_zone_fit_fields:
  assumes "iso_find_zone_fit cfg st sz = Some (Inr (r, st'))"
  shows "zones_used st' = zones_used st \<and> thread st' = thread st \<and>
         (\<forall>j. alloc_count (zones st' j) = alloc_count (zones st j))"
  using assms unfolding iso_find_zone_fit_def Let_def
  by (auto dest!: thenP_InrD find_fit_chain_fields find_fit_linear_fields
           split: if_splits option.splits)

lemma zone_cache_probe_fields:
  "zone_cache_probe cfg st sz i = Inr (r, st') \<Longrightarrow>
     zones_used st' = zones_used st \<and>
     (\<forall>j. alloc_count (zones st' j) = alloc_count (zones st j))"
proof (induction cfg st sz i rule: zone_cache_probe.induct)
  case (1 cfg st sz i)
  show ?case
  proof (cases "i < zone_cache_count (thread st)")
    case False
    with "1.prems" show ?thesis by (simp add: zone_cache_probe.simps [of cfg st sz i])
  next
    case True
    with "1.prems" have nf: "\<not> i \<ge> ZONE_CACHE_SZ"
      by (auto simp: zone_cache_probe.simps [of cfg st sz i] split: if_splits)
    show ?thesis
    proof (cases "snd (zone_cache (thread st) i) \<ge> sz")
      case False
      with True nf "1.prems" have "zone_cache_probe cfg st sz (i + 1) = Inr (r, st')"
        by (simp add: zone_cache_probe.simps [of cfg st sz i])
      from "1.IH"(2) [OF True nf False this] show ?thesis .
    next
      case ge: True
      with True nf "1.prems" obtain fits st1 where
        a: "zone_fits cfg st (fst (zone_cache (thread st) i)) sz = Inr (fits, st1)"
        and b: "(if fits then Inr (Some (fst (zone_cache (thread st) i)), st1)
                 else zone_cache_probe cfg (st1\<lparr>thread := thread st\<rparr>) sz (i + 1))
                = Inr (r, st')"
        by (auto simp: zone_cache_probe.simps [of cfg st sz i] split: sum.splits)
      note f = zone_fits_fields [OF a]
      show ?thesis
      proof (cases fits)
        case True
        with b f show ?thesis by simp
      next
        case False
        with b have "zone_cache_probe cfg (st1\<lparr>thread := thread st\<rparr>) sz (i + 1) = Inr (r, st')"
          by simp
        from "1.IH"(1) [OF True nf ge a refl False this] f show ?thesis by simp
      qed
    qed
  qed
qed

lemma alloc_from_zone_fields:
  assumes "alloc_from_zone cfg st zi b = Inr (p, st')"
  shows "zones_used st' = zones_used st \<and>
         alloc_count (zones st' zi) = alloc_count (zones st zi) + 1 \<and>
         (\<forall>j. j \<noteq> zi \<longrightarrow> alloc_count (zones st' j) = alloc_count (zones st j))"
proof -
  from assms obtain z1 m1 where
    a: "u_iso_alloc_bitslot_from_zone cfg b
          ((UNMASK_ZONE_PTRS (zones st zi))\<lparr>next_free_bit_slot := BAD_BIT_SLOT\<rparr>) (umem st)
          = Inr (p, z1, m1)"
    and b: "st' = st\<lparr>zones := (zones st)(zi := MASK_ZONE_PTRS z1), umem := m1,
                     thread := (if \<not> internal (MASK_ZONE_PTRS z1)
                                then populate_zone_cache (MASK_ZONE_PTRS z1) (thread st)
                                else thread st)\<rparr>"
    by (auto simp: alloc_from_zone_def Let_def dest!: thenE_InrD)
  from alloc_bitslot_Inr(6) [OF a] b show ?thesis by simp
qed


lemma iso_alloc_small_zones:
  assumes "iso_alloc_small cfg st zone sz = Some (Inr (p, st'))" and "j < zones_used st"
  shows "alloc_count (zones st' j) = alloc_count (zones st j) \<or>
         alloc_count (zones st' j) = alloc_count (zones st j) + 1"
proof -
  from assms(1) obtain zone1 st1 where
    a: "(case zone of
           None \<Rightarrow> Some (zone_cache_probe cfg st sz 0)
         | Some zi \<Rightarrow> Some (Inr (Some zi, st))) = Some (Inr (zone1, st1))"
    and 1: "thenP (case zone1 of
                     None \<Rightarrow> iso_find_zone_fit cfg st1 sz
                   | Some zi \<Rightarrow> Some (Inr (Some zi, st1)))
              (\<lambda>(zone2, st2).
                 case zone2 of
                   Some zi \<Rightarrow>
                     thenP (if \<not> internal (zones st2 zi)
                            then Some (thenE (is_zone_usable cfg (zones st2 zi) (rand st2) sz)
                                         (\<lambda>(usable, z', g').
                                            Inr (usable,
                                                 st2\<lparr>zones := (zones st2)(zi := z'), rand := g'\<rparr>)))
                            else Some (Inr (True, st2)))
                       (\<lambda>(usable, st3).
                          if \<not> usable
                          then (if ABORT_ON_NULL cfg then Some (Inl (Abort AbortOnNull))
                                else Some (Inr (0, st3)))
                          else if next_free_bit_slot (zones st3 zi) = BAD_BIT_SLOT
                          then (if ABORT_ON_NULL cfg then Some (Inl (Abort AbortOnNull))
                                else Some (Inr (0, st3)))
                          else Some (alloc_from_zone cfg st3 zi (next_free_bit_slot (zones st3 zi))))
                 | None \<Rightarrow>
                     thenP (u_iso_new_zone cfg st2 sz True)
                       (\<lambda>(nz, st3).
                          case nz of
                            None \<Rightarrow> Some (Inl (Abort NewZoneFailed))
                          | Some zi \<Rightarrow>
                              if next_free_bit_slot (zones st3 zi) = BAD_BIT_SLOT
                              then Some (Inl (Abort NoFreeBitSlots))
                              else Some (alloc_from_zone cfg st3 zi
                                           (next_free_bit_slot (zones st3 zi)))))
            = Some (Inr (p, st'))"
    unfolding iso_alloc_small_def by (auto dest!: thenP_InrD)
  from a have s1: "zones_used st1 = zones_used st"
    "\<forall>j. alloc_count (zones st1 j) = alloc_count (zones st j)"
    by (auto split: option.splits dest!: zone_cache_probe_fields)
  from 1 obtain zone2 st2 where
    b: "(case zone1 of
           None \<Rightarrow> iso_find_zone_fit cfg st1 sz
         | Some zi \<Rightarrow> Some (Inr (Some zi, st1))) = Some (Inr (zone2, st2))"
    and 2: "(case zone2 of
               Some zi \<Rightarrow>
                 thenP (if \<not> internal (zones st2 zi)
                        then Some (thenE (is_zone_usable cfg (zones st2 zi) (rand st2) sz)
                                     (\<lambda>(usable, z', g').
                                        Inr (usable,
                                             st2\<lparr>zones := (zones st2)(zi := z'), rand := g'\<rparr>)))
                        else Some (Inr (True, st2)))
                   (\<lambda>(usable, st3).
                      if \<not> usable
                      then (if ABORT_ON_NULL cfg then Some (Inl (Abort AbortOnNull))
                            else Some (Inr (0, st3)))
                      else if next_free_bit_slot (zones st3 zi) = BAD_BIT_SLOT
                      then (if ABORT_ON_NULL cfg then Some (Inl (Abort AbortOnNull))
                            else Some (Inr (0, st3)))
                      else Some (alloc_from_zone cfg st3 zi (next_free_bit_slot (zones st3 zi))))
             | None \<Rightarrow>
                 thenP (u_iso_new_zone cfg st2 sz True)
                   (\<lambda>(nz, st3).
                      case nz of
                        None \<Rightarrow> Some (Inl (Abort NewZoneFailed))
                      | Some zi \<Rightarrow>
                          if next_free_bit_slot (zones st3 zi) = BAD_BIT_SLOT
                          then Some (Inl (Abort NoFreeBitSlots))
                          else Some (alloc_from_zone cfg st3 zi
                                       (next_free_bit_slot (zones st3 zi)))))
            = Some (Inr (p, st'))"
    by (auto dest!: thenP_InrD)
  from b s1 have s2: "zones_used st2 = zones_used st"
    "\<forall>j. alloc_count (zones st2 j) = alloc_count (zones st j)"
    by (auto split: option.splits dest!: iso_find_zone_fit_fields)
  show ?thesis
  proof (cases zone2)
    case None
    with 2 obtain nz st3 where
      c: "u_iso_new_zone cfg st2 sz True = Some (Inr (nz, st3))"
      and 3: "(case nz of
                 None \<Rightarrow> Some (Inl (Abort NewZoneFailed))
               | Some zi \<Rightarrow>
                   if next_free_bit_slot (zones st3 zi) = BAD_BIT_SLOT
                   then Some (Inl (Abort NoFreeBitSlots))
                   else Some (alloc_from_zone cfg st3 zi (next_free_bit_slot (zones st3 zi))))
              = Some (Inr (p, st'))"
      by (auto dest!: thenP_InrD)
    from 3 obtain zi where nz: "nz = Some zi"
      and d: "alloc_from_zone cfg st3 zi (next_free_bit_slot (zones st3 zi)) = Inr (p, st')"
      by (auto split: option.splits if_splits)
    from u_iso_new_zone_Inr [OF c] nz have zi: "zi = zones_used st2"
      and s3: "\<forall>j. j \<noteq> zones_used st2 \<longrightarrow> alloc_count (zones st3 j) = alloc_count (zones st2 j)"
      by auto
    from assms(2) s2 zi have "j \<noteq> zi" "j \<noteq> zones_used st2" by auto
    with alloc_from_zone_fields [OF d] s3 s2 show ?thesis by simp
  next
    case (Some zi)
    with 2 obtain usable st3 where
      c: "(if \<not> internal (zones st2 zi)
           then Some (thenE (is_zone_usable cfg (zones st2 zi) (rand st2) sz)
                        (\<lambda>(usable, z', g').
                           Inr (usable, st2\<lparr>zones := (zones st2)(zi := z'), rand := g'\<rparr>)))
           else Some (Inr (True, st2))) = Some (Inr (usable, st3))"
      and 3: "(if \<not> usable
               then (if ABORT_ON_NULL cfg then Some (Inl (Abort AbortOnNull))
                     else Some (Inr (0, st3)))
               else if next_free_bit_slot (zones st3 zi) = BAD_BIT_SLOT
               then (if ABORT_ON_NULL cfg then Some (Inl (Abort AbortOnNull))
                     else Some (Inr (0, st3)))
               else Some (alloc_from_zone cfg st3 zi (next_free_bit_slot (zones st3 zi))))
              = Some (Inr (p, st'))"
      by (auto dest!: thenP_InrD)
    from c s2 have s3: "\<forall>j. alloc_count (zones st3 j) = alloc_count (zones st j)"
      by (auto split: if_splits dest!: thenE_InrD is_zone_usable_fields)
    from 3 have "st' = st3 \<or>
                 alloc_from_zone cfg st3 zi (next_free_bit_slot (zones st3 zi)) = Inr (p, st')"
      by (auto split: if_splits)
    then show ?thesis
    proof
      assume "st' = st3"
      with s3 show ?thesis by simp
    next
      assume "alloc_from_zone cfg st3 zi (next_free_bit_slot (zones st3 zi)) = Inr (p, st')"
      from alloc_from_zone_fields [OF this] s3 show ?thesis by (cases "j = zi") auto
    qed
  qed
qed

lemma big_alloc_new_zones:
  assumes "big_alloc_new cfg st sz last_big = Inr (p, st')"
  shows "zones st' = zones st"
  using assms unfolding big_alloc_new_def mmap_rw_pages_def
  by (auto simp: Let_def split: sum.splits if_splits prod.splits option.splits
           dest!: mmap_pages_fields create_guard_page_fields)

lemma u_iso_big_alloc_zones:
  assumes "u_iso_big_alloc cfg st sz = Some (Inr (p, st'))"
  shows "zones st' = zones st"
  using assms unfolding u_iso_big_alloc_def
  by (auto simp: Let_def split: sum.splits if_splits prod.splits option.splits
           dest!: big_alloc_new_zones)

lemma u_iso_alloc_zones:
  assumes "u_iso_alloc cfg st zone sz = Some (Inr (p, st'))"
    and "root_present st" and "j < zones_used st"
  shows "alloc_count (zones st' j) = alloc_count (zones st j) \<or>
         alloc_count (zones st' j) = alloc_count (zones st j) + 1"
proof -
  from assms(1,2) have
    "st' = st \<or> iso_alloc_small cfg st zone sz = Some (Inr (p, st')) \<or>
     u_iso_big_alloc cfg st sz = Some (Inr (p, st'))"
    by (auto simp: u_iso_alloc_def iso_alloc_initialize_global_root_def split: if_splits)
  with assms(3) show ?thesis
    by (auto dest!: iso_alloc_small_zones [where j = j] u_iso_big_alloc_zones)
qed

lemma u_iso_alloc_mono:
  assumes "u_iso_alloc cfg st zone sz = Some (Inr (p, st'))"
    and "root_present st" and "j < zones_used st" and "alloc_count (zones st j) \<noteq> - 1"
  shows "alloc_count (zones st j) \<le> alloc_count (zones st' j)"
proof -
  from assms(4) have "alloc_count (zones st j) \<le> alloc_count (zones st j) + 1"
    using inc_less_eq_self_iff_eq linorder_linear by blast
  with u_iso_alloc_zones [OF assms(1,2,3)] show ?thesis by auto
qed


lemma new_zone_publish_returns:
  assumes "internal nz" and "zone_lookup_table st (chunk_size nz) \<noteq> 0"
    and "\<not> zone_lookup_table st (chunk_size nz) < zones_used st"
  shows "\<exists>st'. new_zone_publish cfg st nz = Some (Inr (Some (zones_used st), st'))"
  using assms by (simp add: new_zone_publish_def Let_def new_zone_chain_end)

lemma new_zone_init_fields [simp]:
  "chunk_size (new_zone_init sz intern) = sz" "internal (new_zone_init sz intern) = intern"
  by (simp_all add: new_zone_init_def zero_zone_def Let_def)

lemma rand_uint64_const [simp]: "rand_uint64 (\<lambda>n. c) = (c, \<lambda>n. c)"
  by (simp add: rand_uint64_def)

lemma mmap_pages_returns:
  assumes "os_mmap st 0 \<noteq> - 1" and "rand st = (\<lambda>n. c)"
  shows "\<exists>st'. mmap_pages cfg st = Inr (os_mmap st 0, st') \<and>
           os_mmap st' = (\<lambda>n. os_mmap st (Suc n)) \<and> rand st' = (\<lambda>n. c) \<and>
           system_page_size st' = system_page_size st"
  using assms by (simp add: mmap_pages_def Let_def)

lemma new_zone_map_returns:
  assumes "os_mmap st 0 \<noteq> - 1" and "os_mmap st 0 \<noteq> 0"
    and "ROUND_UP_PAGE cfg (os_mmap st 0 + (bitmap_size nz + system_page_size st)) \<noteq> 0"
    and "os_mmap st 1 \<noteq> - 1" and "os_mmap st 1 \<noteq> 0"
    and "ROUND_UP_PAGE cfg (os_mmap st 1 + (ZONE_USER_SIZE + system_page_size st)) \<noteq> 0"
    and "rand st = (\<lambda>n. c)"
  shows "\<exists>nz1 st1. new_zone_map cfg st nz = Inr (nz1, st1) \<and> rand st1 = (\<lambda>n. c) \<and>
           bitmap nz1 = replicate (unat (ROUND_UP_PAGE cfg (bitmap_size nz)) div 8) 0 \<and>
           bitmap_size nz1 = bitmap_size nz"
proof -
  from mmap_pages_returns [OF assms(1,7), of cfg] obtain sa where
    a: "mmap_pages cfg st = Inr (os_mmap st 0, sa)" "os_mmap sa = (\<lambda>n. os_mmap st (Suc n))"
    "rand sa = (\<lambda>n. c)" "system_page_size sa = system_page_size st"
    by blast
  from a(2) assms(4) have "os_mmap sa 0 \<noteq> - 1" by simp
  from mmap_pages_returns [OF this a(3), of cfg] a(2) obtain sb where
    b: "mmap_pages cfg sa = Inr (os_mmap st 1, sb)" "rand sb = (\<lambda>n. c)"
    "system_page_size sb = system_page_size sa"
    by auto
  from a b assms(2,3,5,6) show ?thesis
    by (simp add: new_zone_map_def mmap_rw_pages_def create_guard_page_def Let_def)
qed

lemma sint_canary_bm_idx: "0 \<le> sint (canary_bm_idx cfg r mx)"
  by (simp add: canary_bm_idx_def Let_def)

lemma canary_loop_returns:
  assumes "mx \<noteq> 0" and "sint (canary_bm_idx cfg c mx) < int (length (bitmap z))"
  shows "\<exists>z' m'. canary_loop cfg mx n z m (\<lambda>k. c) = Inr (z', m', \<lambda>k. c) \<and>
           length (bitmap z') = length (bitmap z) \<and> bitmap_size z' = bitmap_size z"
  using assms(2)
proof (induction n arbitrary: z m)
  case 0
  then show ?case by simp
next
  case (Suc n)
  let ?i = "sint (canary_bm_idx cfg c mx)"
  from Suc.prems sint_canary_bm_idx [of cfg c mx]
  have rd: "bm_read (bitmap z) ?i = Inr (bitmap z ! nat ?i)"
    by (simp add: bm_read_def)
  show ?case
  proof (cases "GET_BIT (bitmap z ! nat ?i) 0 \<noteq> 0")
    case True
    with rd assms(1) Suc.IH [OF Suc.prems, of m] show ?thesis by (simp add: Let_def)
  next
    case False
    let ?z = "z\<lparr>bitmap := (bitmap z)[nat ?i := SET_BIT (SET_BIT (bitmap z ! nat ?i) 0) 1]\<rparr>"
    from Suc.prems have "?i < int (length (bitmap ?z))" by simp
    from Suc.IH [OF this, of "write_canary cfg ?z m
             (POINTER_FROM_BITSLOT ?z (push_bit BITS_PER_QWORD_SHIFT (canary_bm_idx cfg c mx)))"]
      False rd assms(1)
    show ?thesis by (simp add: Let_def)
  qed
qed

lemma fill_scan_returns:
  "0 \<le> i \<Longrightarrow> mx \<le> int (length bm) \<Longrightarrow> \<not> isl (fill_scan bm mx i c n)"
proof (induction bm mx i c n rule: fill_scan.induct)
  case (1 bm mx i c n)
  show ?case
  proof (cases "n < BIT_SLOT_CACHE_SZ \<and> \<not> i \<ge> mx")
    case False
    then show ?thesis by (auto simp: fill_scan.simps [of bm mx i c n])
  next
    case True
    with "1.prems" have rd: "bm_read bm i = Inr (bm ! nat i)" by (simp add: bm_read_def)
    obtain c' n' r where w: "fill_scan_word (bm ! nat i) i 0 c n = (c', n', r)"
      by (cases "fill_scan_word (bm ! nat i) i 0 c n") auto
    show ?thesis
    proof (cases r)
      case True
      with \<open>n < BIT_SLOT_CACHE_SZ \<and> \<not> i \<ge> mx\<close> rd w show ?thesis
        by (simp add: fill_scan.simps [of bm mx i c n])
    next
      case False
      from True have t: "n < BIT_SLOT_CACHE_SZ" "\<not> mx \<le> i" by simp_all
      from "1.prems" have "0 \<le> i + 1" by simp
      from "1.IH" [OF t rd w [symmetric] refl False this "1.prems"(2)] True rd w False
      show ?thesis by (simp add: fill_scan.simps [of bm mx i c n])
    qed
  qed
qed

lemma fill_free_bit_slot_cache_returns:
  assumes "sint (GET_MAX_BITMASK_INDEX z) \<le> int (length (bitmap z))"
    and "0 \<le> sint (signed_drop_bit 32 (ucast (ucast (g 0) :: 32 word)
                                          * (GET_MAX_BITMASK_INDEX z - 1)) :: 64 word)"
  shows "\<not> isl (fill_free_bit_slot_cache cfg z g)"
proof -
  let ?i = "if sint (GET_MAX_BITMASK_INDEX z) > sint ALIGNMENT
            then signed_drop_bit 32 (ucast (ucast (g 0) :: 32 word) * (GET_MAX_BITMASK_INDEX z - 1))
            else (0 :: 64 word)"
  from assms(2) have "0 \<le> sint ?i" by simp
  from fill_scan_returns [OF this assms(1), of "\<lambda>i. BAD_BIT_SLOT" 0]
  obtain c n r where "fill_scan (bitmap z) (sint (GET_MAX_BITMASK_INDEX z)) (sint ?i)
                        (\<lambda>i. BAD_BIT_SLOT) 0 = Inr (c, n, r)"
    by (cases "fill_scan (bitmap z) (sint (GET_MAX_BITMASK_INDEX z)) (sint ?i)
                 (\<lambda>i. BAD_BIT_SLOT) 0") auto
  then show ?thesis
    by (auto simp: fill_free_bit_slot_cache_def Let_def rand_uint64_def
             split: prod.splits if_splits)
qed


lemma new_zone_seed_returns:
  assumes "rand st = (\<lambda>n. c)"
    and "chunk_size nz \<noteq> 0" and "GET_MAX_BITMASK_INDEX nz - 1 \<noteq> 0"
    and "sint (canary_bm_idx cfg c (GET_MAX_BITMASK_INDEX nz - 1)) < int (length (bitmap nz))"
    and "sint (GET_MAX_BITMASK_INDEX nz) \<le> int (length (bitmap nz))"
    and "0 \<le> sint (signed_drop_bit 32 (ucast (ucast c :: 32 word)
                                          * (GET_MAX_BITMASK_INDEX nz - 1)) :: 64 word)"
  shows "\<not> isl (new_zone_seed cfg st nz)"
proof -
  let ?nz = "nz\<lparr>index := zones_used st, canary_secret := c, pointer_mask := c\<rparr>"
  have g: "GET_MAX_BITMASK_INDEX ?nz = GET_MAX_BITMASK_INDEX nz"
    by (simp add: GET_MAX_BITMASK_INDEX_def)
  have "\<exists>z1 m1. create_canary_chunks cfg ?nz (umem st) (\<lambda>n. c) = Inr (z1, m1, \<lambda>n. c) \<and>
          length (bitmap z1) = length (bitmap nz) \<and> bitmap_size z1 = bitmap_size nz"
  proof (cases "\<not> CANARIES cfg \<or> chunk_size nz > MAX_DEFAULT_ZONE_SZ")
    case True
    then show ?thesis by (auto simp: create_canary_chunks_def)
  next
    case False
    from assms(4) have "sint (canary_bm_idx cfg c (GET_MAX_BITMASK_INDEX nz - 1))
                          < int (length (bitmap ?nz))" by simp
    from canary_loop_returns [OF assms(3) this,
        of "unat (GET_CHUNK_COUNT ?nz div CANARY_COUNT_DIV)" "umem st"] False assms(2) g
    show ?thesis by (simp add: create_canary_chunks_def)
  qed
  then obtain z1 m1 where
    a: "create_canary_chunks cfg ?nz (umem st) (\<lambda>n. c) = Inr (z1, m1, \<lambda>n. c)"
    and b: "length (bitmap z1) = length (bitmap nz)" "bitmap_size z1 = bitmap_size nz"
    by blast
  from b have g1: "GET_MAX_BITMASK_INDEX z1 = GET_MAX_BITMASK_INDEX nz"
    by (simp add: GET_MAX_BITMASK_INDEX_def)
  from fill_free_bit_slot_cache_returns [of z1 "\<lambda>n. c" cfg] assms(5,6) b g1
  obtain z2 g2 where "fill_free_bit_slot_cache cfg z1 (\<lambda>n. c) = Inr (z2, g2)"
    by (cases "fill_free_bit_slot_cache cfg z1 (\<lambda>n. c)") auto
  with a assms(1) show ?thesis by (simp add: new_zone_seed_def)
qed

lemma u_iso_new_zone_returns:
  assumes "zones_used st < MAX_ZONES" and "is_pow2 sz" and "sz \<le> SMALL_SZ_MAX cfg"
    and "\<not> sz < SMALLEST_CHUNK_SZ cfg"
    and "new_zone_map cfg st (new_zone_init sz True) = Inr (nz1, st1)"
    and "\<not> isl (new_zone_seed cfg st1 nz1)"
    and "zone_lookup_table st sz \<noteq> 0" and "\<not> zone_lookup_table st sz < zones_used st"
  shows "\<exists>st'. u_iso_new_zone cfg st sz True = Some (Inr (Some (zones_used st), st'))"
proof -
  from assms(6) obtain nz2 st2 where b: "new_zone_seed cfg st1 nz1 = Inr (nz2, st2)"
    by (cases "new_zone_seed cfg st1 nz1") auto
  from new_zone_map_fields [OF assms(5)] new_zone_seed_fields [OF b] assms(7,8)
  have "internal nz2" "zone_lookup_table st2 (chunk_size nz2) \<noteq> 0"
    "\<not> zone_lookup_table st2 (chunk_size nz2) < zones_used st2" "zones_used st2 = zones_used st"
    by simp_all
  from new_zone_publish_returns [OF this(1,2,3), of cfg] this(4)
  obtain st' where "new_zone_publish cfg st2 nz2 = Some (Inr (Some (zones_used st), st'))"
    by auto
  with assms(1-5) b show ?thesis by (simp add: u_iso_new_zone_def)
qed

lemma free_retires_zone:
  assumes "iso_find_zone_range cfg st p = Inr (Some zi)"
    and "iso_free_chunk_from_zone cfg (zones st zi) (umem st) (thread st) p permanent
           = Inr (z1, m1, t1)"
    and "u_is_zone_retired z1"
    and "u_iso_new_zone cfg
           ((u_unmap_zone cfg
               (st\<lparr>umem := m1, thread := t1, zones := (zones st)(zi := UNMASK_ZONE_PTRS z1)\<rparr>) zi)
              \<lparr>zones_used := index z1\<rparr>)
           (chunk_size z1) True = Some (Inr (k, s'))"
  shows "u_iso_free_internal_unlocked cfg st p permanent None
           = Some (Inr (s'\<lparr>zones_used := zones_used st\<rparr>))"
  using assms
  by (simp add: u_iso_free_internal_unlocked_def destroy_zone_core_def Let_def
                u_is_zone_retired_def)


lemma demo_retire_free:
  "\<exists>s'. u_iso_free_internal_unlocked demo_cfg demo_retire 0x10000000 False None
           = Some (Inr s') \<and> alloc_count (zones s' 1) = 0 \<and>
         free_retires demo_cfg demo_retire 0x10000000 False None = Some 1"
proof -
  let ?Z = "(MASK_ZONE_PTRS demo_zone)\<lparr>alloc_count := 16385\<rparr>"
  have Z: "zones demo_retire 1 = ?Z" "umem demo_retire = demo_mem" "thread demo_retire = demo_tc"
    "zones_used demo_retire = 2"
    by (simp_all add: demo_retire_def demo_st_def)
  have r: "iso_find_zone_range demo_cfg demo_retire 0x10000000 = Inr (Some 1)"
    by (simp add: iso_find_zone_range_def Let_def Z in_user_range_def MAX_ZONES_def)
       (simp add: demo_retire_def demo_st_def demo_cfg_def demo_zone_def MASK_ZONE_PTRS_def
          UNMASK_USER_PTR_def ZONE_USER_SIZE_def)
  have "\<not> isl (iso_free_chunk_from_zone demo_cfg ?Z demo_mem demo_tc 0x10000000 False)"
    by (simp add: demo_eval)
  then obtain z1 m1 t1 where
    X: "iso_free_chunk_from_zone demo_cfg (zones demo_retire 1) (umem demo_retire)
          (thread demo_retire) 0x10000000 False = Inr (z1, m1, t1)"
    unfolding Z
    by (cases "iso_free_chunk_from_zone demo_cfg ?Z demo_mem demo_tc 0x10000000 False") auto
  note f = iso_free_chunk_from_zone_Inr [OF X [unfolded Z]]
  from f(8,10,11,12,13) have z1: "chunk_size z1 = 8192" "af_count z1 = 0"
    "alloc_count z1 = 16385" "internal z1" "index z1 = 1"
    by (simp_all add: demo_zone_def MASK_ZONE_PTRS_def)
  then have ret: "u_is_zone_retired z1"
    by (simp add: u_is_zone_retired_def GET_CHUNK_COUNT_def ZONE_USER_SIZE_def
          ZONE_ALLOC_RETIRE_def MAX_DEFAULT_ZONE_SZ_def)
  define S where "S = (u_unmap_zone demo_cfg
              (demo_retire\<lparr>umem := m1, thread := t1,
                           zones := (zones demo_retire)(1 := UNMASK_ZONE_PTRS z1)\<rparr>) 1)
              \<lparr>zones_used := index z1\<rparr>"
  have S: "os_mmap S = (\<lambda>n. 0x80000000 + push_bit 24 (of_nat n))"
    "rand S = (\<lambda>n. 0xFFFFFFFF)" "system_page_size S = 4096"
    "zone_lookup_table S 8192 = 1" "zones_used S = 1"
    by (simp_all add: S_def u_unmap_zone_def demo_retire_def demo_st_def z1)
  have bs: "bitmap_size (new_zone_init 8192 True) = 128"
    by (simp add: new_zone_init_def Let_def zero_zone_def GET_CHUNK_COUNT_def ZONE_USER_SIZE_def
          BITS_PER_BYTE_SHIFT_def BITS_PER_CHUNK_SHIFT_def)
  have "\<exists>nz1 st1. new_zone_map demo_cfg S (new_zone_init 8192 True) = Inr (nz1, st1) \<and>
          rand st1 = (\<lambda>n. 0xFFFFFFFF) \<and>
          bitmap nz1 = replicate (unat (ROUND_UP_PAGE demo_cfg
                                          (bitmap_size (new_zone_init 8192 True))) div 8) 0 \<and>
          bitmap_size nz1 = bitmap_size (new_zone_init 8192 True)"
    by (rule new_zone_map_returns)
       (simp_all add: S bs ROUND_UP_PAGE_def demo_cfg_def ZONE_USER_SIZE_def)
  then obtain nz1 st1 where
    m: "new_zone_map demo_cfg S (new_zone_init 8192 True) = Inr (nz1, st1)"
    and m1: "rand st1 = (\<lambda>n. 0xFFFFFFFF)" "bitmap nz1 = replicate 512 0" "bitmap_size nz1 = 128"
    by (auto simp: bs ROUND_UP_PAGE_def demo_cfg_def)
  from new_zone_map_fields [OF m] have cs: "chunk_size nz1 = 8192" by simp
  have sd: "\<not> isl (new_zone_seed demo_cfg st1 nz1)"
    by (rule new_zone_seed_returns [OF m1(1)])
       (simp_all add: cs m1 GET_MAX_BITMASK_INDEX_def canary_bm_idx_def demo_cfg_def Let_def
          signed_drop_bit_word_numeral)
  have c: "is_pow2 8192" "8192 \<le> SMALL_SZ_MAX demo_cfg" "\<not> 8192 < SMALLEST_CHUNK_SZ demo_cfg"
    by (simp_all add: is_pow2_def demo_cfg_def SMALLEST_CHUNK_SZ_def)
  have "\<exists>st'. u_iso_new_zone demo_cfg S 8192 True = Some (Inr (Some (zones_used S), st'))"
    by (rule u_iso_new_zone_returns [OF _ c m sd]) (simp_all add: S MAX_ZONES_def)
  then obtain s' where n: "u_iso_new_zone demo_cfg S 8192 True = Some (Inr (Some 1, s'))"
    unfolding S by auto
  from u_iso_new_zone_Inr [OF n] have z: "alloc_count (zones s' 1) = 0"
    unfolding S by simp
  from n z1(1) have "u_iso_new_zone demo_cfg S (chunk_size z1) True = Some (Inr (Some 1, s'))"
    by simp
  from free_retires_zone [OF r X ret this [unfolded S_def]]
  have "u_iso_free_internal_unlocked demo_cfg demo_retire 0x10000000 False None
          = Some (Inr (s'\<lparr>zones_used := zones_used demo_retire\<rparr>))" .
  moreover from r X ret z1(5)
  have "free_retires demo_cfg demo_retire 0x10000000 False None = Some 1"
    by (simp add: free_retires_def)
  ultimately show ?thesis using z by simp
qed


lemma demo_st_free:
  "\<exists>st'. u_iso_free demo_cfg demo_st 0x10000000 True = Some (Inr st')"
proof -
  have Z: "zones demo_st 1 = MASK_ZONE_PTRS demo_zone" "umem demo_st = demo_mem"
    "thread demo_st = demo_tc" "zero_alloc_page demo_st = 0x70000000"
    by (simp_all add: demo_st_def)
  have "\<not> isl (iso_free_chunk_from_zone demo_cfg (MASK_ZONE_PTRS demo_zone) demo_mem demo_tc
                 0x10000000 True)"
    by (simp add: demo_eval iso_clear_user_chunk_def)
  then obtain z1 m1 t1 where
    X: "iso_free_chunk_from_zone demo_cfg (zones demo_st 1) (umem demo_st) (thread demo_st)
          0x10000000 True = Inr (z1, m1, t1)"
    unfolding Z
    by (cases "iso_free_chunk_from_zone demo_cfg (MASK_ZONE_PTRS demo_zone) demo_mem demo_tc
                 0x10000000 True") auto
  from iso_free_chunk_from_zone_Inr(8,11) [OF X [unfolded Z]]
  have "\<not> u_is_zone_retired z1"
    by (simp add: u_is_zone_retired_def GET_CHUNK_COUNT_def ZONE_USER_SIZE_def
          ZONE_ALLOC_RETIRE_def demo_zone_def)
  from free_keeps [OF demo_st_range X this] show ?thesis
    by (simp add: u_iso_free_def u_iso_free_internal_def Z)
qed

lemma demo_st_alloc:
  "\<exists>p st'. u_iso_alloc demo_cfg demo_st None 8192 = Some (Inr (p, st'))"
proof -
  have Z: "zones demo_st (Suc 0) = MASK_ZONE_PTRS demo_zone" "umem demo_st = demo_mem"
    "thread demo_st = demo_tc" "zone_lookup_table demo_st 8192 = 1" "zones_used demo_st = 2"
    "root_present demo_st"
    by (simp_all add: demo_st_def)
  have p: "zone_cache_probe demo_cfg demo_st 8192 0 = Inr (None, demo_st)"
    by (simp add: zone_cache_probe.simps [of demo_cfg demo_st 8192 0] Z demo_tc_def)
  have u: "iso_does_zone_fit demo_cfg (MASK_ZONE_PTRS demo_zone) g 8192
             = Inr (True, MASK_ZONE_PTRS demo_zone, g)" for g
    by (simp add: iso_does_zone_fit_def is_zone_usable_def MASK_ZONE_PTRS_def demo_zone_def
          ZONE_1024_def ZONE_128_def demo_cfg_def BAD_BIT_SLOT_def)
  have st: "demo_st\<lparr>zones := (zones demo_st)(Suc 0 := zones demo_st (Suc 0)),
                    rand := rand demo_st\<rparr> = demo_st"
    by simp
  have zf: "zone_fits demo_cfg demo_st (Suc 0) 8192 = Inr (True, demo_st)"
    using st by (simp add: zone_fits_def MAX_ZONES_def u Z)
  have f: "iso_find_zone_fit demo_cfg demo_st 8192 = Some (Inr (Some 1, demo_st))"
    by (simp add: iso_find_zone_fit_def Let_def IS_ALIGNED_def ALIGNMENT_def Z
          find_fit_chain.simps [of demo_cfg demo_st 8192 "Suc 0"] zf)
       (simp add: MASK_ZONE_PTRS_def demo_zone_def)
  have a: "\<not> isl (alloc_from_zone demo_cfg demo_st (Suc 0) 2)"
    by (simp add: alloc_from_zone_def Z u_iso_alloc_bitslot_from_zone_def UNMASK_ZONE_PTRS_def
          demo_eval ALLOCATED_BITSLOTS_def POINTER_FROM_BITSLOT_def check_canary_def Let_def)
  then obtain p' st' where "alloc_from_zone demo_cfg demo_st (Suc 0) 2 = Inr (p', st')"
    by (cases "alloc_from_zone demo_cfg demo_st (Suc 0) 2") auto
  with p f show ?thesis
    by (simp add: u_iso_alloc_def iso_alloc_initialize_global_root_def Z iso_alloc_small_def)
       (simp add: demo_cfg_def MASK_ZONE_PTRS_def demo_zone_def BAD_BIT_SLOT_def)
qed


lemma demo_quarantine_flush:
  "\<exists>st'. u_flush_chunk_quarantine demo_cfg demo_quarantine = Some (Inr st')"
proof -
  let ?t = "demo_tc\<lparr>chunk_quarantine := (\<lambda>i. 0)(0 := 0x10000000), chunk_quarantine_count := 1\<rparr>"
  have Z: "zones demo_quarantine 1 = MASK_ZONE_PTRS demo_zone" "umem demo_quarantine = demo_mem"
    "thread demo_quarantine = ?t"
    by (simp_all add: demo_quarantine_def demo_st_def)
  have r: "iso_find_zone_range demo_cfg demo_quarantine 0x10000000 = Inr (Some 1)"
    by (simp add: iso_find_zone_range_def Let_def in_user_range_def MAX_ZONES_def
          demo_quarantine_def demo_st_def demo_cfg_def demo_zone_def MASK_ZONE_PTRS_def
          UNMASK_USER_PTR_def ZONE_USER_SIZE_def)
  have "\<not> isl (iso_free_chunk_from_zone demo_cfg (MASK_ZONE_PTRS demo_zone) demo_mem ?t
                 0x10000000 False)"
    by (simp add: demo_eval)
  then obtain z1 m1 t1 where
    X: "iso_free_chunk_from_zone demo_cfg (zones demo_quarantine 1) (umem demo_quarantine)
          (thread demo_quarantine) 0x10000000 False = Inr (z1, m1, t1)"
    unfolding Z
    by (cases "iso_free_chunk_from_zone demo_cfg (MASK_ZONE_PTRS demo_zone) demo_mem ?t
                 0x10000000 False") auto
  from iso_free_chunk_from_zone_Inr(8,11) [OF X [unfolded Z]]
  have "\<not> u_is_zone_retired z1"
    by (simp add: u_is_zone_retired_def GET_CHUNK_COUNT_def ZONE_USER_SIZE_def
          ZONE_ALLOC_RETIRE_def demo_zone_def)
  from free_keeps [OF r X this] show ?thesis
    by (simp add: u_flush_chunk_quarantine_def Z CHUNK_QUARANTINE_SZ_def)
qed

text \<open>
  Claim C5, amended. For every index \<open>j\<close>, no operation decreases \<open>zones[j].alloc_count\<close>
  except the free that retires the zone of index \<open>j\<close>, and the increment that wraps.
  \<^verbatim>\<open>_iso_alloc\<close>, once the root exists, does not decrease the count of a zone in use
  (\<open>j < zones_used\<close>) whose count is below \<open>2^64 - 1\<close>, where the increment of the 64-bit
  counter wraps to 0. \<^verbatim>\<open>_iso_free_internal_unlocked\<close> leaves the count as it is,
  unless the free retires the zone of index \<open>j\<close> (\<open>free_retires\<close>), which is replaced at
  that index by a new zone, and the count is 0 afterwards. The flush of the quarantine and
  \<^verbatim>\<open>_iso_free\<close> leave the count as it is, unless one of the frees that they make
  retires the zone of index \<open>j\<close> (\<open>drain_retires\<close>, \<open>iso_free_retires\<close>), and the count is
  0 afterwards.
\<close>

theorem alloc_count_monotone_until_retirement:
  "(root_present st \<and> j < zones_used st \<and> alloc_count (zones st j) \<noteq> - 1 \<and>
    u_iso_alloc cfg st zone sz = Some (Inr (p, st1)) \<longrightarrow>
      alloc_count (zones st j) \<le> alloc_count (zones st1 j)) \<and>
   (u_iso_free_internal_unlocked cfg st q permanent zn = Some (Inr st2) \<longrightarrow>
      alloc_count (zones st2 j) = alloc_count (zones st j) \<or>
      free_retires cfg st q permanent zn = Some j \<and> alloc_count (zones st2 j) = 0) \<and>
   (u_flush_chunk_quarantine cfg st = Some (Inr st3) \<longrightarrow>
      alloc_count (zones st3 j) = alloc_count (zones st j) \<or>
      j \<in> set (drain_retires cfg st 0 (chunk_quarantine_count (thread st))) \<and>
      alloc_count (zones st3 j) = 0) \<and>
   (u_iso_free cfg st q permanent = Some (Inr st4) \<longrightarrow>
      alloc_count (zones st4 j) = alloc_count (zones st j) \<or>
      j \<in> set (iso_free_retires cfg st q permanent) \<and> alloc_count (zones st4 j) = 0)"
  using u_iso_alloc_mono [of cfg st zone sz p st1 j]
    free_internal_retires [of cfg st q permanent zn st2 j]
    u_flush_chunk_quarantine_retires [of cfg st st3 j]
    u_iso_free_retires [of cfg st q permanent st4 j]
  by blast

text \<open>
  Claim C5 as stated fails at retirement: the zone that replaces a retired zone at the
  same index is created by \<^verbatim>\<open>_iso_new_zone\<close>, which clears the record, so its count
  starts again at 0. In \<open>demo_retire\<close> the zone at index 1 has \<open>alloc_count = 16385\<close> and
  one live chunk; the free of that chunk at \<open>0x10000000\<close> returns, and
  \<open>zones[1].alloc_count\<close> is 0 afterwards.
\<close>

theorem retirement_resets_alloc_count_counterexample:
  "alloc_count (zones demo_retire 1) = 16385 \<and>
   u_iso_free_internal_unlocked demo_cfg demo_retire 0x10000000 False None \<noteq> None \<and>
   \<not> isl (the (u_iso_free_internal_unlocked demo_cfg demo_retire 0x10000000 False None)) \<and>
   alloc_count (zones (projr (the (u_iso_free_internal_unlocked demo_cfg demo_retire
                                     0x10000000 False None))) 1) = 0"
proof -
  from demo_retire_free obtain s' where
    "u_iso_free_internal_unlocked demo_cfg demo_retire 0x10000000 False None = Some (Inr s')"
    "alloc_count (zones s' 1) = 0"
    by blast
  moreover have "alloc_count (zones demo_retire 1) = 16385"
    by (simp add: demo_retire_def)
  ultimately show ?thesis by simp
qed

theorem alloc_count_monotone_until_retirement_witness:
  "root_present demo_st \<and> 1 < zones_used demo_st \<and> alloc_count (zones demo_st 1) \<noteq> - 1 \<and>
   (\<exists>p st1. u_iso_alloc demo_cfg demo_st None 8192 = Some (Inr (p, st1)) \<and>
      alloc_count (zones demo_st 1) \<le> alloc_count (zones st1 1)) \<and>
   (\<exists>st2. u_iso_free_internal_unlocked demo_cfg demo_retire 0x10000000 False None
             = Some (Inr st2) \<and>
      (alloc_count (zones st2 1) = alloc_count (zones demo_retire 1) \<or>
       free_retires demo_cfg demo_retire 0x10000000 False None = Some 1 \<and>
       alloc_count (zones st2 1) = 0)) \<and>
   (\<exists>st3. u_flush_chunk_quarantine demo_cfg demo_quarantine = Some (Inr st3) \<and>
      (alloc_count (zones st3 1) = alloc_count (zones demo_quarantine 1) \<or>
       1 \<in> set (drain_retires demo_cfg demo_quarantine 0
                   (chunk_quarantine_count (thread demo_quarantine))) \<and>
       alloc_count (zones st3 1) = 0)) \<and>
   (\<exists>st4. u_iso_free demo_cfg demo_st 0x10000000 True = Some (Inr st4) \<and>
      (alloc_count (zones st4 1) = alloc_count (zones demo_st 1) \<or>
       1 \<in> set (iso_free_retires demo_cfg demo_st 0x10000000 True) \<and>
       alloc_count (zones st4 1) = 0))"
proof -
  note t = alloc_count_monotone_until_retirement
  have a: "root_present demo_st" "1 < zones_used demo_st" "alloc_count (zones demo_st 1) \<noteq> - 1"
    by (simp_all add: demo_st_def demo_zone_def MASK_ZONE_PTRS_def)
  from demo_st_alloc obtain p st1 where
    1: "u_iso_alloc demo_cfg demo_st None 8192 = Some (Inr (p, st1))" by blast
  from demo_retire_free obtain st2 where
    2: "u_iso_free_internal_unlocked demo_cfg demo_retire 0x10000000 False None
          = Some (Inr st2)" by blast
  from demo_quarantine_flush obtain st3 where
    3: "u_flush_chunk_quarantine demo_cfg demo_quarantine = Some (Inr st3)" by blast
  from demo_st_free obtain st4 where
    4: "u_iso_free demo_cfg demo_st 0x10000000 True = Some (Inr st4)" by blast
  from a 1 t [where st = demo_st and j = 1 and cfg = demo_cfg and zone = None and sz = 8192
      and p = p and ?st1.0 = st1]
  have c1: "alloc_count (zones demo_st 1) \<le> alloc_count (zones st1 1)" by blast
  from 2 t [where st = demo_retire and j = 1 and cfg = demo_cfg and q = "0x10000000"
      and permanent = False and zn = None and ?st2.0 = st2]
  have c2: "alloc_count (zones st2 1) = alloc_count (zones demo_retire 1) \<or>
       free_retires demo_cfg demo_retire 0x10000000 False None = Some 1 \<and>
       alloc_count (zones st2 1) = 0" by blast
  from 3 t [where st = demo_quarantine and j = 1 and cfg = demo_cfg and ?st3.0 = st3]
  have c3: "alloc_count (zones st3 1) = alloc_count (zones demo_quarantine 1) \<or>
       1 \<in> set (drain_retires demo_cfg demo_quarantine 0
                   (chunk_quarantine_count (thread demo_quarantine))) \<and>
       alloc_count (zones st3 1) = 0" by blast
  from 4 t [where st = demo_st and j = 1 and cfg = demo_cfg and q = "0x10000000"
      and permanent = True and ?st4.0 = st4]
  have c4: "alloc_count (zones st4 1) = alloc_count (zones demo_st 1) \<or>
       1 \<in> set (iso_free_retires demo_cfg demo_st 0x10000000 True) \<and>
       alloc_count (zones st4 1) = 0" by blast
  from a 1 2 3 4 c1 c2 c3 c4 show ?thesis by blast
qed

end
